theory Spec2Isabelle
  imports Main
begin

section \<open>The smart-transaction submission hook\<close>

text \<open>
  A shallow embedding of the class \<open>SmartTransactionHook\<close> and of the component
  \<open>GasFeeTokenModal\<close>. The hook talks to three controllers (the smart-transactions
  controller, the transaction controller and, through the messenger, the approval
  controller). They are libraries outside the repository, so they are a parameter of the
  model: a record of functions over a controller state \<open>'e\<close> that each return either a
  thrown error or a reply. Every call the hook makes is written to a log together with
  the reply it got, in program order. Log output (\<open>log.error\<close>, \<open>log.debug\<close>) and
  the clock (\<open>Date.now()\<close>) are left out.
\<close>

subsection \<open>Data\<close>

text \<open>JavaScript truthiness of an optional string: \<open>undefined\<close> and \<open>''\<close> are falsy.\<close>

fun truthy :: "string option \<Rightarrow> bool" where
  "truthy None = False"
| "truthy (Some s) = (s \<noteq> [])"

text \<open>
  \<open>TransactionType\<close>: the four members the hook names; every other member of the
  enum is \<open>otherType\<close> with its name.
\<close>

datatype transaction_type =
  bridge | bridgeApproval | swapAndSend | swapApproval | otherType string

record tx_params =
  tp_from :: string
  tp_to :: "string option"
  tp_data :: "string option"
  tp_value :: "string option"
  tp_nonce :: "string option"
  tp_gas :: "string option"
  tp_gasPrice :: "string option"
  tp_maxFeePerGas :: "string option"
  tp_maxPriorityFeePerGas :: "string option"
  tp_chainId :: "string option"

record transaction_meta =
  tm_id :: string
  tm_origin :: "string option"
  tm_chainId :: string
  tm_type :: "transaction_type option"
  tm_txParams :: tx_params

record publish_batch_hook_transaction =
  bt_id :: "string option"
  bt_signedTx :: string

record smart_transactions_flags =
  expectedDeadline :: "int option"
  maxDeadline :: "int option"
  extensionReturnTxHashAsap :: "bool option"

record feature_flags =
  extensionActive :: bool
  mobileActive :: bool
  smartTransactions :: smart_transactions_flags

record fee =
  fee_maxFeePerGas :: int
  fee_maxPriorityFeePerGas :: int

record individual_tx_fees =
  itf_fees :: "fee list"

record fees =
  approvalTxFees :: "individual_tx_fees option"
  tradeTxFees :: "individual_tx_fees option"

datatype smart_transaction_status =
  PENDING | SUCCESS | REVERTED | UNKNOWN | CANCELLED | RESOLVED

record status_metadata =
  minedHash :: "string option"

record smart_transaction =
  st_uuid :: string
  st_status :: "smart_transaction_status option"
  st_statusMetadata :: "status_metadata option"

record submit_request =
  signedTransactions :: "string list"
  signedCanceledTransactions :: "string list"
  sr_txParams :: tx_params
  sr_transactionMeta :: transaction_meta

record submit_response =
  uuid :: "string option"
  txHash :: "string option"
  txHashes :: "string list option"

record approval_request =
  ar_id :: string
  ar_uuid :: string
  ar_isDapp :: bool
  ar_txId :: string

record request_state =
  rs_id :: string
  rs_smartTransaction :: smart_transaction
  rs_isDapp :: bool
  rs_txId :: string

text \<open>A thrown JavaScript \<open>Error\<close> with its message.\<close>

datatype error = Error string

datatype listener = StatusPageListener | TransactionHashListener

text \<open>One entry of the log: the call, its arguments and the reply.\<close>

datatype call =
    StartFlow "error + string"
  | EndFlow string "error + unit"
  | AcceptRequest string "error + unit"
  | AddRequest approval_request "error + unit"
  | UpdateRequestState request_state "error + unit"
  | Subscribe listener string
  | GetFees tx_params "error + fees"
  | ApproveTransactionsWithSameNonce "tx_params list" "error + string list"
  | SubmitSignedTransactions submit_request "error + submit_response option"

text \<open>
  The parameter of the model: the controllers, and the two helpers of the repository
  that the hook imports from \<open>shared/modules\<close> (\<open>isLegacyTransaction\<close>,
  \<open>decimalToHex\<close>) and the constant \<open>ORIGIN_METAMASK\<close> of
  \<open>shared/constants/app\<close>.
\<close>

record 'e ext =
  ORIGIN_METAMASK :: string
  isLegacyTransaction :: "transaction_meta \<Rightarrow> bool"
  decimalToHex :: "int \<Rightarrow> string"
  startFlow :: "'e \<Rightarrow> (error + string) \<times> 'e"
  endFlow :: "string \<Rightarrow> 'e \<Rightarrow> (error + unit) \<times> 'e"
  acceptRequest :: "string \<Rightarrow> 'e \<Rightarrow> (error + unit) \<times> 'e"
  addRequest :: "approval_request \<Rightarrow> 'e \<Rightarrow> (error + unit) \<times> 'e"
  updateRequestState :: "request_state \<Rightarrow> 'e \<Rightarrow> (error + unit) \<times> 'e"
  getFees :: "tx_params \<Rightarrow> 'e \<Rightarrow> (error + fees) \<times> 'e"
  approveTransactionsWithSameNonce :: "tx_params list \<Rightarrow> 'e \<Rightarrow> (error + string list) \<times> 'e"
  submitSignedTransactions ::
    "submit_request \<Rightarrow> 'e \<Rightarrow> (error + submit_response option) \<times> 'e"

text \<open>
  What all instances share: the static field \<open>#sharedApprovalFlowId\<close>, the state
  of the controllers and the log.
\<close>

record 'e world =
  sharedApprovalFlowId :: string
  env :: 'e
  trace :: "call list"

text \<open>The request of the constructor, and the private fields of an instance.\<close>

record submit_smart_transaction_request =
  req_transactionMeta :: transaction_meta
  req_signedTransactionInHex :: "string option"
  req_isSmartTransaction :: bool
  req_featureFlags :: feature_flags
  req_transactions :: "publish_batch_hook_transaction list option"

record hook =
  approvalFlowEnded :: bool
  approvalFlowId :: string
  chainId :: string
  featureFlags :: feature_flags
  isDapp :: bool
  isSmartTransaction :: bool
  transactionMeta :: transaction_meta
  signedTransactionInHex :: "string option"
  transactions :: "publish_batch_hook_transaction list option"
  txParams :: tx_params
  shouldShowStatusPage :: bool

text \<open>
  How an \<open>async\<close> method ends: it returns, it throws, or its promise is still pending
  after every event it was given.
\<close>

datatype 'a completion = Returns 'a | Throws error | Pending

text \<open>
  What happens while \<open>submit\<close> awaits the transaction hash: the message bus publishes
  a \<open>SmartTransactionsController:smartTransaction\<close> event, or the promise of
  \<open>ApprovalController:addRequest\<close> settles.
\<close>

datatype occurrence = SmartTransactionEvent smart_transaction | ApprovalSettled

subsection \<open>Constants\<close>

text \<open>The cancel gas limit; the source's comment fixes it at 21000.\<close>

definition CANCEL_GAS_LIMIT_DEC :: int where
  "CANCEL_GAS_LIMIT_DEC = 21000"

subsection \<open>Calls to the controllers\<close>

text \<open>
  A call changes the state of the controllers and is logged with its reply. A
  subscription is a registration in the messenger of the hook itself: it is logged and
  cannot fail.
\<close>

definition logged :: "('r \<Rightarrow> call) \<Rightarrow> ('e \<Rightarrow> 'r \<times> 'e) \<Rightarrow> 'e world \<Rightarrow> 'r \<times> 'e world" where
  "logged mk f w =
     (case f (env w) of (r, e') \<Rightarrow> (r, w\<lparr>env := e', trace := trace w @ [mk r]\<rparr>))"

definition subscribe :: "listener \<Rightarrow> string \<Rightarrow> 'e world \<Rightarrow> 'e world" where
  "subscribe l u w = w\<lparr>trace := trace w @ [Subscribe l u]\<rparr>"

subsection \<open>The constructor\<close>

definition SmartTransactionHook ::
  "'e ext \<Rightarrow> submit_smart_transaction_request \<Rightarrow> hook" where
  "SmartTransactionHook X request =
     \<lparr> approvalFlowEnded = False,
       approvalFlowId = [],
       chainId = tm_chainId (req_transactionMeta request),
       featureFlags = req_featureFlags request,
       isDapp = (tm_origin (req_transactionMeta request) \<noteq> Some (ORIGIN_METAMASK X)),
       isSmartTransaction = req_isSmartTransaction request,
       transactionMeta = req_transactionMeta request,
       signedTransactionInHex = req_signedTransactionInHex request,
       transactions = req_transactions request,
       txParams = tm_txParams (req_transactionMeta request),
       shouldShowStatusPage =
         (tm_type (req_transactionMeta request) \<noteq> Some bridge \<or>
          (case req_transactions request of None \<Rightarrow> False | Some ts \<Rightarrow> length ts > 0)) \<rparr>"

subsection \<open>The approval flow\<close>

definition endExistingApprovalFlow :: "'e ext \<Rightarrow> string \<Rightarrow> 'e world \<Rightarrow> 'e world" where
  "endExistingApprovalFlow X fid w =
     (case logged (EndFlow fid) (endFlow X fid) w of
        (Inl _, w1) \<Rightarrow> w1
      | (Inr _, w1) \<Rightarrow>
          (case logged (AcceptRequest fid) (acceptRequest X fid) w1 of
             (Inl _, w2) \<Rightarrow> w2
           | (Inr _, w2) \<Rightarrow> w2\<lparr>sharedApprovalFlowId := []\<rparr>))"

definition startApprovalFlow ::
  "'e ext \<Rightarrow> hook \<Rightarrow> 'e world \<Rightarrow> (error + unit) \<times> hook \<times> 'e world" where
  "startApprovalFlow X h w =
     (let w1 = (if sharedApprovalFlowId w \<noteq> []
                then endExistingApprovalFlow X (sharedApprovalFlowId w) w else w)
      in case logged StartFlow (startFlow X) w1 of
           (Inl e, w2) \<Rightarrow> (Inl e, h, w2)
         | (Inr fid, w2) \<Rightarrow>
             (Inr (), h\<lparr>approvalFlowId := fid\<rparr>, w2\<lparr>sharedApprovalFlowId := fid\<rparr>))"

definition onApproveOrReject :: "'e ext \<Rightarrow> hook \<Rightarrow> 'e world \<Rightarrow> hook \<times> 'e world" where
  "onApproveOrReject X h w =
     (if \<not> shouldShowStatusPage h \<or> approvalFlowEnded h then (h, w)
      else
        (let h1 = h\<lparr>approvalFlowEnded := True\<rparr>;
             w1 = snd (logged (EndFlow (approvalFlowId h1)) (endFlow X (approvalFlowId h1)) w)
         in (h1, if sharedApprovalFlowId w1 = approvalFlowId h1
                 then w1\<lparr>sharedApprovalFlowId := []\<rparr> else w1)))"

text \<open>
  \<open>#addApprovalRequest\<close>: \<open>Inl\<close> is the call throwing, \<open>Inr\<close> is the
  call returning its promise; the promise settling later, which calls
  \<open>#onApproveOrReject\<close>, is the occurrence \<open>ApprovalSettled\<close>. The request
  is logged without the creation time and the \<open>origin\<close> of the global scope.
\<close>

definition addApprovalRequest ::
  "'e ext \<Rightarrow> hook \<Rightarrow> string \<Rightarrow> 'e world \<Rightarrow> (error + unit) \<times> 'e world" where
  "addApprovalRequest X h u w =
     (let r = \<lparr> ar_id = approvalFlowId h, ar_uuid = u, ar_isDapp = isDapp h,
                ar_txId = tm_id (transactionMeta h) \<rparr>
      in logged (AddRequest r) (addRequest X r) w)"

definition updateApprovalRequest ::
  "'e ext \<Rightarrow> hook \<Rightarrow> smart_transaction \<Rightarrow> 'e world \<Rightarrow> (error + unit) \<times> 'e world" where
  "updateApprovalRequest X h st w =
     (let r = \<lparr> rs_id = approvalFlowId h, rs_smartTransaction = st, rs_isDapp = isDapp h,
                rs_txId = tm_id (transactionMeta h) \<rparr>
      in logged (UpdateRequestState r) (updateRequestState X r) w)"

definition addListenerToUpdateStatusPage :: "string \<Rightarrow> 'e world \<Rightarrow> 'e world" where
  "addListenerToUpdateStatusPage u w = subscribe StatusPageListener u w"

definition processApprovalIfNeeded ::
  "'e ext \<Rightarrow> hook \<Rightarrow> string \<Rightarrow> 'e world \<Rightarrow> (error + unit) \<times> 'e world" where
  "processApprovalIfNeeded X h u w =
     (if shouldShowStatusPage h then
        (case addApprovalRequest X h u w of
           (Inl e, w1) \<Rightarrow> (Inl e, w1)
         | (Inr _, w1) \<Rightarrow> (Inr (), addListenerToUpdateStatusPage u w1))
      else (Inr (), w))"

subsection \<open>The two listeners on the message bus\<close>

text \<open>
  The callback of \<open>#addListenerToUpdateStatusPage\<close>. A rejection of the update is an
  unhandled rejection of the callback's own promise and reaches nobody.
\<close>

definition statusPageListener ::
  "'e ext \<Rightarrow> string \<Rightarrow> smart_transaction \<Rightarrow> hook \<Rightarrow> 'e world \<Rightarrow> 'e world" where
  "statusPageListener X u st h w =
     (if st_uuid st = u then
        (case st_status st of
           None \<Rightarrow> w
         | Some s \<Rightarrow>
             if s = PENDING then w
             else if \<not> approvalFlowEnded h then snd (updateApprovalRequest X h st w)
             else w)
      else w)"

text \<open>
  The callback of \<open>#waitForTransactionHash\<close>: \<open>None\<close> when it returns without
  resolving, \<open>Some r\<close> when it calls \<open>resolve(r)\<close>, with a \<open>null\<close> as \<open>None\<close>.
\<close>

definition transactionHashListener ::
  "string \<Rightarrow> smart_transaction \<Rightarrow> string option option" where
  "transactionHashListener u st =
     (if st_uuid st = u then
        (case st_status st of
           None \<Rightarrow> None
         | Some s \<Rightarrow>
             if s = PENDING then None
             else
               (case st_statusMetadata st of
                  None \<Rightarrow> Some None
                | Some m \<Rightarrow> if truthy (minedHash m) then Some (minedHash m) else Some None))
      else None)"

text \<open>
  The occurrences are delivered in order until the promise resolves. The status-page
  listener was subscribed first and only when the status page is shown, so it runs
  before the hash listener on each event.
\<close>

fun awaitTransactionHash ::
  "'e ext \<Rightarrow> string \<Rightarrow> occurrence list \<Rightarrow> hook \<Rightarrow> 'e world
     \<Rightarrow> string option option \<times> hook \<times> 'e world" where
  "awaitTransactionHash X u [] h w = (None, h, w)"
| "awaitTransactionHash X u (SmartTransactionEvent st # os) h w =
     (let w1 = (if shouldShowStatusPage h then statusPageListener X u st h w else w)
      in case transactionHashListener u st of
           Some r \<Rightarrow> (Some r, h, w1)
         | None \<Rightarrow> awaitTransactionHash X u os h w1)"
| "awaitTransactionHash X u (ApprovalSettled # os) h w =
     (case onApproveOrReject X h w of (h1, w1) \<Rightarrow> awaitTransactionHash X u os h1 w1)"

definition waitForTransactionHash ::
  "'e ext \<Rightarrow> string \<Rightarrow> occurrence list \<Rightarrow> hook \<Rightarrow> 'e world
     \<Rightarrow> string option option \<times> hook \<times> 'e world" where
  "waitForTransactionHash X u os h w =
     awaitTransactionHash X u os h (subscribe TransactionHashListener u w)"

subsection \<open>Signing and submitting\<close>

text \<open>
  \<open>TransactionMeta\<close> always has \<open>txParams\<close>, so the guards on a missing
  \<open>#txParams\<close> never fire and are left out; the guard on an empty \<open>#chainId\<close>
  is kept.
\<close>

definition applyFeeToTransaction :: "'e ext \<Rightarrow> hook \<Rightarrow> fee \<Rightarrow> bool \<Rightarrow> tx_params" where
  "applyFeeToTransaction X h f isCancel =
     (let unsignedTransaction = (txParams h)
            \<lparr> tp_maxFeePerGas := Some (''0x'' @ decimalToHex X (fee_maxFeePerGas f)),
              tp_maxPriorityFeePerGas :=
                Some (''0x'' @ decimalToHex X (fee_maxPriorityFeePerGas f)),
              tp_gas := (if isCancel then Some (''0x'' @ decimalToHex X CANCEL_GAS_LIMIT_DEC)
                         else tp_gas (txParams h)) \<rparr>
      in if isCancel
         then unsignedTransaction
                \<lparr> tp_to := Some (tp_from unsignedTransaction), tp_data := Some ''0x'' \<rparr>
         else unsignedTransaction)"

definition createSignedTransactions ::
  "'e ext \<Rightarrow> hook \<Rightarrow> fee list \<Rightarrow> bool \<Rightarrow> 'e world \<Rightarrow> (error + string list) \<times> 'e world" where
  "createSignedTransactions X h fs isCancel w =
     (if chainId h = [] then (Inl (Error ''Transaction params and chainId are required''), w)
      else
        (let unsignedTransactions = map (\<lambda>f. applyFeeToTransaction X h f isCancel) fs;
             transactionsWithChainId =
               map (\<lambda>tx. tx\<lparr>tp_chainId :=
                             (if truthy (tp_chainId tx) then tp_chainId tx
                              else Some (chainId h))\<rparr>) unsignedTransactions
         in logged (ApproveTransactionsWithSameNonce transactionsWithChainId)
              (approveTransactionsWithSameNonce X transactionsWithChainId) w))"

text \<open>The batch of the request, empty when \<open>#transactions\<close> is undefined.\<close>

definition batchTransactions :: "hook \<Rightarrow> publish_batch_hook_transaction list" where
  "batchTransactions h = (case transactions h of None \<Rightarrow> [] | Some ts \<Rightarrow> ts)"

definition signAndSubmitTransactions ::
  "'e ext \<Rightarrow> hook \<Rightarrow> fees option \<Rightarrow> 'e world
     \<Rightarrow> (error + submit_response option) \<times> 'e world" where
  "signAndSubmitTransactions X h getFeesResponse w =
     (let signed =
        (if length (batchTransactions h) > 0
         then (Inr (map bt_signedTx
                      (filter (\<lambda>tx. bt_signedTx tx \<noteq> []) (batchTransactions h))), w)
         else
           (case signedTransactionInHex h of
              Some (c # cs) \<Rightarrow> (Inr [c # cs], w)
            | _ \<Rightarrow>
                (case getFeesResponse of
                   None \<Rightarrow> (Inr [], w)
                 | Some r \<Rightarrow>
                     createSignedTransactions X h
                       (case tradeTxFees r of None \<Rightarrow> [] | Some t \<Rightarrow> itf_fees t) False w)))
      in case signed of
           (Inl e, w1) \<Rightarrow> (Inl e, w1)
         | (Inr signedTxs, w1) \<Rightarrow>
             (let r = \<lparr> signedTransactions = signedTxs, signedCanceledTransactions = [],
                        sr_txParams = txParams h, sr_transactionMeta = transactionMeta h \<rparr>
              in logged (SubmitSignedTransactions r) (submitSignedTransactions X r) w1))"

subsection \<open>submit\<close>

definition isUnsupportedTransactionTypeForSmartTransaction :: "hook \<Rightarrow> bool" where
  "isUnsupportedTransactionTypeForSmartTransaction h =
     (case tm_type (transactionMeta h) of
        None \<Rightarrow> False
      | Some t \<Rightarrow> t \<in> set [swapAndSend, swapApproval, bridgeApproval])"

text \<open>
  The body of the second \<open>try\<close> block of \<open>submit\<close>, from
  \<open>#signAndSubmitTransactions\<close> to the \<open>return\<close>.
\<close>

definition submitAfterFees ::
  "'e ext \<Rightarrow> hook \<Rightarrow> fees \<Rightarrow> occurrence list \<Rightarrow> 'e world
     \<Rightarrow> string option completion \<times> hook \<times> 'e world" where
  "submitAfterFees X h getFeesResponse os w =
     (case signAndSubmitTransactions X h (Some getFeesResponse) w of
        (Inl e, w1) \<Rightarrow> (Throws e, h, w1)
      | (Inr submitTransactionResponse, w1) \<Rightarrow>
          (case (case submitTransactionResponse of None \<Rightarrow> None | Some r \<Rightarrow> uuid r) of
             Some (c # cs) \<Rightarrow>
               (case processApprovalIfNeeded X h (c # cs) w1 of
                  (Inl e, w2) \<Rightarrow> (Throws e, h, w2)
                | (Inr _, w2) \<Rightarrow>
                    (let responseTxHash =
                           (case submitTransactionResponse of
                              None \<Rightarrow> None | Some r \<Rightarrow> txHash r)
                     in if extensionReturnTxHashAsap (smartTransactions (featureFlags h))
                             = Some True \<and> truthy responseTxHash
                        then (Returns responseTxHash, h, w2)
                        else
                          (case waitForTransactionHash X (c # cs) os h w2 of
                             (None, h3, w3) \<Rightarrow> (Pending, h3, w3)
                           | (Some None, h3, w3) \<Rightarrow>
                               (Throws (Error
                                  ''Transaction does not have a transaction hash, there was a problem''),
                                h3, w3)
                           | (Some (Some transactionHash), h3, w3) \<Rightarrow>
                               (Returns (Some transactionHash), h3, w3))))
           | _ \<Rightarrow> (Throws (Error ''No smart transaction UUID''), h, w1)))"

definition submit ::
  "'e ext \<Rightarrow> hook \<Rightarrow> occurrence list \<Rightarrow> 'e world
     \<Rightarrow> string option completion \<times> hook \<times> 'e world" where
  "submit X h os w =
     (if \<not> isSmartTransaction h \<or> isUnsupportedTransactionTypeForSmartTransaction h \<or>
         isLegacyTransaction X (transactionMeta h)
      then (Returns None, h, w)
      else
        (case (if shouldShowStatusPage h then startApprovalFlow X h w else (Inr (), h, w)) of
           (Inl e, h1, w1) \<Rightarrow> (Throws e, h1, w1)
         | (Inr _, h1, w1) \<Rightarrow>
             (let p = (txParams h1)\<lparr>tp_chainId := Some (chainId h1)\<rparr>
              in case logged (GetFees p) (getFees X p) w1 of
                   (Inl e, w2) \<Rightarrow>
                     (case onApproveOrReject X h1 w2 of (h2, w3) \<Rightarrow> (Returns None, h2, w3))
                 | (Inr getFeesResponse, w2) \<Rightarrow>
                     (case submitAfterFees X h1 getFeesResponse os w2 of
                        (Throws e, h2, w3) \<Rightarrow>
                          (case onApproveOrReject X h2 w3 of (h3, w4) \<Rightarrow> (Throws e, h3, w4))
                      | (Returns r, h2, w3) \<Rightarrow> (Returns r, h2, w3)
                      | (Pending, h2, w3) \<Rightarrow> (Pending, h2, w3)))))"

subsection \<open>submitBatch\<close>

record batch_result =
  transactionHash :: string

text \<open>The last step of \<open>submitBatch\<close>: the response built from the relay's reply.\<close>

definition submitBatchResponse :: "submit_response option \<Rightarrow> batch_result list" where
  "submitBatchResponse submitTransactionResponse =
     (case (case submitTransactionResponse of None \<Rightarrow> None | Some r \<Rightarrow> txHashes r) of
        Some hs \<Rightarrow> map (\<lambda>t. \<lparr> transactionHash = t \<rparr>) hs
      | None \<Rightarrow> [])"

text \<open>The body of the \<open>try\<close> block of \<open>submitBatch\<close>.\<close>

definition submitBatchBody ::
  "'e ext \<Rightarrow> hook \<Rightarrow> occurrence list \<Rightarrow> 'e world
     \<Rightarrow> batch_result list option completion \<times> hook \<times> 'e world" where
  "submitBatchBody X h os w =
     (case signAndSubmitTransactions X h None w of
        (Inl e, w1) \<Rightarrow> (Throws e, h, w1)
      | (Inr submitTransactionResponse, w1) \<Rightarrow>
          (case (case submitTransactionResponse of None \<Rightarrow> None | Some r \<Rightarrow> uuid r) of
             Some (c # cs) \<Rightarrow>
               (case processApprovalIfNeeded X h (c # cs) w1 of
                  (Inl e, w2) \<Rightarrow> (Throws e, h, w2)
                | (Inr _, w2) \<Rightarrow>
                    (case waitForTransactionHash X (c # cs) os h w2 of
                       (None, h3, w3) \<Rightarrow> (Pending, h3, w3)
                     | (Some None, h3, w3) \<Rightarrow>
                         (Throws (Error
                            ''Transaction does not have a transaction hash, there was a problem''),
                          h3, w3)
                     | (Some (Some _), h3, w3) \<Rightarrow>
                         (Returns (Some (submitBatchResponse submitTransactionResponse)),
                          h3, w3)))
           | _ \<Rightarrow> (Throws (Error ''No smart transaction UUID''), h, w1)))"

definition submitBatch ::
  "'e ext \<Rightarrow> hook \<Rightarrow> occurrence list \<Rightarrow> 'e world
     \<Rightarrow> batch_result list option completion \<times> hook \<times> 'e world" where
  "submitBatch X h os w =
     (if \<not> isSmartTransaction h then (Returns None, h, w)
      else
        (case (if shouldShowStatusPage h then startApprovalFlow X h w else (Inr (), h, w)) of
           (Inl e, h1, w1) \<Rightarrow> (Throws e, h1, w1)
         | (Inr _, h1, w1) \<Rightarrow>
             (case submitBatchBody X h1 os w1 of
                (Throws e, h2, w2) \<Rightarrow>
                  (case onApproveOrReject X h2 w2 of (h3, w3) \<Rightarrow> (Throws e, h3, w3))
              | (Returns r, h2, w2) \<Rightarrow> (Returns r, h2, w2)
              | (Pending, h2, w2) \<Rightarrow> (Pending, h2, w2))))"

definition submitSmartTransactionHook ::
  "'e ext \<Rightarrow> submit_smart_transaction_request \<Rightarrow> occurrence list \<Rightarrow> 'e world
     \<Rightarrow> string option completion \<times> hook \<times> 'e world" where
  "submitSmartTransactionHook X request os w = submit X (SmartTransactionHook X request) os w"

definition submitBatchSmartTransactionHook ::
  "'e ext \<Rightarrow> submit_smart_transaction_request \<Rightarrow> occurrence list \<Rightarrow> 'e world
     \<Rightarrow> batch_result list option completion \<times> hook \<times> 'e world" where
  "submitBatchSmartTransactionHook X request os w =
     submitBatch X (SmartTransactionHook X request) os w"

subsection \<open>An example environment\<close>

text \<open>
  Controllers that always succeed, for the concrete runs below. Flow identifiers are
  \<open>f\<close>, \<open>f1\<close>, \<open>f11\<close>, ...; the relay answers with the uuid \<open>u1\<close>.
\<close>

definition hexDigit :: "nat \<Rightarrow> char" where
  "hexDigit n = ''0123456789abcdef'' ! (n mod 16)"

fun hexOfNat :: "nat \<Rightarrow> string" where
  "hexOfNat n = (if n < 16 then [hexDigit n] else hexOfNat (n div 16) @ [hexDigit (n mod 16)])"

definition exampleFees :: fees where
  "exampleFees =
     \<lparr> approvalTxFees = None,
       tradeTxFees = Some \<lparr> itf_fees =
         [\<lparr> fee_maxFeePerGas = 255, fee_maxPriorityFeePerGas = 16 \<rparr>,
          \<lparr> fee_maxFeePerGas = 300, fee_maxPriorityFeePerGas = 20 \<rparr>] \<rparr> \<rparr>"

definition exampleResponse :: submit_response where
  "exampleResponse =
     \<lparr> uuid = Some ''u1'', txHash = Some ''0xaa'', txHashes = Some [''0xaa'', ''0xbb''] \<rparr>"

definition exampleExt :: "nat ext" where
  "exampleExt =
     \<lparr> ORIGIN_METAMASK = ''metamask'',
       isLegacyTransaction = (\<lambda>tm. tp_gasPrice (tm_txParams tm) \<noteq> None),
       decimalToHex = (\<lambda>i. hexOfNat (nat i)),
       startFlow = (\<lambda>n. (Inr (''f'' @ replicate n CHR ''1''), Suc n)),
       endFlow = (\<lambda>fid n. (Inr (), n)),
       acceptRequest = (\<lambda>fid n. (Inr (), n)),
       addRequest = (\<lambda>r n. (Inr (), n)),
       updateRequestState = (\<lambda>r n. (Inr (), n)),
       getFees = (\<lambda>p n. (Inr exampleFees, n)),
       approveTransactionsWithSameNonce = (\<lambda>txs n. (Inr (map (\<lambda>tx. ''0xsigned'') txs), n)),
       submitSignedTransactions = (\<lambda>r n. (Inr (Some exampleResponse), n)) \<rparr>"



definition exampleTxParams :: tx_params where
  "exampleTxParams =
     \<lparr> tp_from = ''0x1'', tp_to = Some ''0x2'', tp_data = None, tp_value = Some ''0x0'',
       tp_nonce = None, tp_gas = Some ''0x5208'', tp_gasPrice = None,
       tp_maxFeePerGas = Some ''0x1'', tp_maxPriorityFeePerGas = Some ''0x1'',
       tp_chainId = None \<rparr>"

definition exampleMeta :: "transaction_type \<Rightarrow> transaction_meta" where
  "exampleMeta t =
     \<lparr> tm_id = ''tx1'', tm_origin = Some ''metamask'', tm_chainId = ''0x1'',
       tm_type = Some t, tm_txParams = exampleTxParams \<rparr>"

definition exampleFlags :: "bool option \<Rightarrow> feature_flags" where
  "exampleFlags asap =
     \<lparr> extensionActive = True, mobileActive = False,
       smartTransactions =
         \<lparr> expectedDeadline = None, maxDeadline = None, extensionReturnTxHashAsap = asap \<rparr> \<rparr>"

definition exampleRequest ::
  "transaction_type \<Rightarrow> bool option \<Rightarrow> submit_smart_transaction_request" where
  "exampleRequest t asap =
     \<lparr> req_transactionMeta = exampleMeta t, req_signedTransactionInHex = None,
       req_isSmartTransaction = True, req_featureFlags = exampleFlags asap,
       req_transactions = None \<rparr>"

text \<open>A request with a legacy transaction: its parameters carry a gas price.\<close>

definition legacyRequest :: submit_smart_transaction_request where
  "legacyRequest =
     (exampleRequest (otherType ''swap'') None)
       \<lparr>req_transactionMeta :=
          (exampleMeta (otherType ''swap''))
            \<lparr>tm_txParams := exampleTxParams\<lparr>tp_gasPrice := Some ''0x1''\<rparr>\<rparr>\<rparr>"

definition exampleWorld :: "nat world" where
  "exampleWorld = \<lparr> sharedApprovalFlowId = [], env = 0, trace = [] \<rparr>"

definition exampleEvent ::
  "string \<Rightarrow> smart_transaction_status option \<Rightarrow> string option \<Rightarrow> occurrence" where
  "exampleEvent u s m =
     SmartTransactionEvent
       \<lparr> st_uuid = u, st_status = s, st_statusMetadata = Some \<lparr> minedHash = m \<rparr> \<rparr>"


definition exampleOccurrences :: "occurrence list" where
  "exampleOccurrences =
     [exampleEvent ''u2'' (Some SUCCESS) (Some ''0xzz''),
      exampleEvent ''u1'' None (Some ''0xyy''),
      exampleEvent ''u1'' (Some PENDING) None,
      ApprovalSettled,
      exampleEvent ''u1'' (Some SUCCESS) (Some ''0xcc''),
      exampleEvent ''u1'' (Some SUCCESS) (Some ''0xdd'')]"

subsection \<open>Classes of log entries\<close>

text \<open>The calls that can be made while the hash is awaited.\<close>

fun duringWait :: "call \<Rightarrow> bool" where
  "duringWait (UpdateRequestState _ _) = True"
| "duringWait (EndFlow _ _) = True"
| "duringWait _ = False"

text \<open>The calls that end the shared approval flow and start a new one.\<close>

fun approvalFlowCall :: "call \<Rightarrow> bool" where
  "approvalFlowCall (StartFlow _) = True"
| "approvalFlowCall (EndFlow _ _) = True"
| "approvalFlowCall (AcceptRequest _ _) = True"
| "approvalFlowCall _ = False"

text \<open>The calls that show, update or close the status page.\<close>

fun approvalUiCall :: "call \<Rightarrow> bool" where
  "approvalUiCall (StartFlow _) = True"
| "approvalUiCall (EndFlow _ _) = True"
| "approvalUiCall (AcceptRequest _ _) = True"
| "approvalUiCall (AddRequest _ _) = True"
| "approvalUiCall (UpdateRequestState _ _) = True"
| "approvalUiCall (Subscribe StatusPageListener _) = True"
| "approvalUiCall _ = False"

text \<open>
  The parts of the log of \<open>submit\<close> and \<open>submitBatch\<close>: starting the approval
  flow (after ending the shared one), signing, the approval request with its listener,
  and the end of the flow after a failure.
\<close>

definition startPart :: "hook \<Rightarrow> call list \<Rightarrow> bool" where
  "startPart h F \<longleftrightarrow>
     (if shouldShowStatusPage h
      then \<exists>P fid. F = P @ [StartFlow (Inr fid)] \<and>
             (\<forall>c\<in>set P. \<exists>old x. c = EndFlow old x \<or> c = AcceptRequest old x)
      else F = [])"

definition signingPart :: "hook \<Rightarrow> fees option \<Rightarrow> call list \<Rightarrow> submit_request \<Rightarrow> bool" where
  "signingPart h g S req \<longleftrightarrow>
     (if batchTransactions h = [] \<and> \<not> truthy (signedTransactionInHex h) \<and> g \<noteq> None
      then \<exists>txs. S = [ApproveTransactionsWithSameNonce txs (Inr (signedTransactions req))]
      else S = [])"

definition approvalPart :: "hook \<Rightarrow> string \<Rightarrow> call list \<Rightarrow> bool" where
  "approvalPart h u A \<longleftrightarrow>
     (if shouldShowStatusPage h
      then \<exists>a. A = [AddRequest a (Inr ()), Subscribe StatusPageListener u]
      else A = [])"

definition endPart :: "hook \<Rightarrow> call list \<Rightarrow> bool" where
  "endPart h E \<longleftrightarrow> E = [] \<or> (shouldShowStatusPage h \<and> (\<exists>fid x. E = [EndFlow fid x]))"

text \<open>
  The steps of \<open>submit\<close>, numbered in the order of the source; the calls that end a
  flow or update the status page are not steps of the sequence and have number 0.
\<close>

fun stepNumber :: "call \<Rightarrow> nat" where
  "stepNumber (StartFlow _) = 1"
| "stepNumber (GetFees _ _) = 2"
| "stepNumber (ApproveTransactionsWithSameNonce _ _) = 3"
| "stepNumber (SubmitSignedTransactions _ _) = 4"
| "stepNumber (AddRequest _ _) = 5"
| "stepNumber (Subscribe StatusPageListener _) = 6"
| "stepNumber (Subscribe TransactionHashListener _) = 7"
| "stepNumber _ = 0"

definition steps :: "call list \<Rightarrow> nat list" where
  "steps L = filter (\<lambda>n. 0 < n) (map stepNumber L)"

subsection \<open>Several instances, one shared flow\<close>

text \<open>
  The flows that are active according to the approval controller's replies: started and
  not yet ended.
\<close>

fun flowStep :: "string set \<Rightarrow> call \<Rightarrow> string set" where
  "flowStep A (StartFlow (Inr fid)) = insert fid A"
| "flowStep A (EndFlow fid (Inr _)) = A - {fid}"
| "flowStep A _ = A"

definition activeFlows :: "call list \<Rightarrow> string set" where
  "activeFlows log = foldl flowStep {} log"

text \<open>
  What the hook relies on from the approval controller: a flow identifier is never
  empty, and ending a flow that is active does not fail.
\<close>

fun obeys :: "string set \<Rightarrow> call list \<Rightarrow> bool" where
  "obeys A [] = True"
| "obeys A (StartFlow r # cs) = (r \<noteq> Inr [] \<and> obeys (flowStep A (StartFlow r)) cs)"
| "obeys A (EndFlow fid r # cs) =
     ((fid \<in> A \<longrightarrow> r = Inr ()) \<and> obeys (flowStep A (EndFlow fid r)) cs)"
| "obeys A (c # cs) = obeys (flowStep A c) cs"

definition controllerObeys :: "call list \<Rightarrow> bool" where
  "controllerObeys log = obeys {} log"

text \<open>
  \<open>#startApprovalFlow\<close> is asynchronous: it gives control back at each \<open>await\<close>,
  and the steps of other instances run in between. \<open>submit\<close> and \<open>submitBatch\<close>
  run up to its first \<open>await\<close> in the turn that calls them. The stages tell where an
  instance is: not inside \<open>#startApprovalFlow\<close>; after the call of \<open>endFlow\<close>
  in \<open>#endExistingApprovalFlow\<close>, with the flow identifier and the reply; after the
  call of \<open>acceptRequest\<close>, with the reply; after \<open>#endExistingApprovalFlow\<close>
  has returned; after the call of \<open>startFlow\<close>, with the reply.
\<close>

datatype flow_stage =
    NotStarting
  | EndFlowCalled string "error + unit"
  | AcceptRequestCalled "error + unit"
  | ExistingFlowEnded
  | StartFlowCalled "error + string"

text \<open>\<open>#startApprovalFlow\<close> up to its first \<open>await\<close>.\<close>

definition startApprovalFlow_begin ::
  "'e ext \<Rightarrow> hook \<Rightarrow> 'e world \<Rightarrow> (hook \<times> flow_stage) \<times> 'e world" where
  "startApprovalFlow_begin X h w =
     (if sharedApprovalFlowId w \<noteq> []
      then (case logged (EndFlow (sharedApprovalFlowId w))
                   (endFlow X (sharedApprovalFlowId w)) w of
              (r, w1) \<Rightarrow> ((h, EndFlowCalled (sharedApprovalFlowId w) r), w1))
      else (case logged StartFlow (startFlow X) w of
              (r, w1) \<Rightarrow> ((h, StartFlowCalled r), w1)))"

text \<open>
  \<open>#startApprovalFlow\<close> from one \<open>await\<close> to the next, or to its end. An error of
  \<open>endFlow\<close> or \<open>acceptRequest\<close> goes to the \<open>catch\<close> block of
  \<open>#endExistingApprovalFlow\<close>, which logs it and returns; an error of
  \<open>startFlow\<close> leaves \<open>#startApprovalFlow\<close> with nothing stored.
\<close>

fun startApprovalFlow_resume ::
  "'e ext \<Rightarrow> hook \<times> flow_stage \<Rightarrow> 'e world \<Rightarrow> (hook \<times> flow_stage) \<times> 'e world" where
  "startApprovalFlow_resume X (h, NotStarting) w = ((h, NotStarting), w)"
| "startApprovalFlow_resume X (h, EndFlowCalled fid (Inl _)) w = ((h, ExistingFlowEnded), w)"
| "startApprovalFlow_resume X (h, EndFlowCalled fid (Inr _)) w =
     (case logged (AcceptRequest fid) (acceptRequest X fid) w of
        (r, w1) \<Rightarrow> ((h, AcceptRequestCalled r), w1))"
| "startApprovalFlow_resume X (h, AcceptRequestCalled (Inl _)) w = ((h, ExistingFlowEnded), w)"
| "startApprovalFlow_resume X (h, AcceptRequestCalled (Inr _)) w =
     ((h, ExistingFlowEnded), w\<lparr>sharedApprovalFlowId := []\<rparr>)"
| "startApprovalFlow_resume X (h, ExistingFlowEnded) w =
     (case logged StartFlow (startFlow X) w of
        (r, w1) \<Rightarrow> ((h, StartFlowCalled r), w1))"
| "startApprovalFlow_resume X (h, StartFlowCalled (Inl _)) w = ((h, NotStarting), w)"
| "startApprovalFlow_resume X (h, StartFlowCalled (Inr fid)) w =
     ((h\<lparr>approvalFlowId := fid\<rparr>, NotStarting), w\<lparr>sharedApprovalFlowId := fid\<rparr>)"

text \<open>
  \<open>submit\<close> and \<open>submitBatch\<close> up to their first \<open>await\<close>: past the guard they
  enter \<open>#startApprovalFlow\<close> when the status page is shown.
\<close>

definition submit_begin ::
  "'e ext \<Rightarrow> hook \<Rightarrow> 'e world \<Rightarrow> (hook \<times> flow_stage) \<times> 'e world" where
  "submit_begin X h w =
     (if \<not> isSmartTransaction h \<or> isUnsupportedTransactionTypeForSmartTransaction h \<or>
         isLegacyTransaction X (transactionMeta h)
      then ((h, NotStarting), w)
      else if shouldShowStatusPage h then startApprovalFlow_begin X h w
      else ((h, NotStarting), w))"

definition submitBatch_begin ::
  "'e ext \<Rightarrow> hook \<Rightarrow> 'e world \<Rightarrow> (hook \<times> flow_stage) \<times> 'e world" where
  "submitBatch_begin X h w =
     (if \<not> isSmartTransaction h then ((h, NotStarting), w)
      else if shouldShowStatusPage h then startApprovalFlow_begin X h w
      else ((h, NotStarting), w))"

text \<open>
  All instances of the class, each with its stage. \<open>Submit\<close> and \<open>SubmitBatch\<close>
  are \<open>submitSmartTransactionHook(request)\<close> and
  \<open>submitBatchSmartTransactionHook(request)\<close>: a new instance and its \<open>submit\<close>,
  or \<open>submitBatch\<close>, up to the first \<open>await\<close>. \<open>Resume i\<close> lets the
  \<open>i\<close>-th instance go on from the \<open>await\<close> it is at inside
  \<open>#startApprovalFlow\<close>. \<open>ApproveOrReject i\<close> is a call of
  \<open>#onApproveOrReject\<close> on the \<open>i\<close>-th instance, from a \<open>catch\<close> block or
  from the promise of the approval request, both of which come after
  \<open>#startApprovalFlow\<close> has returned; it makes its calls without an \<open>await\<close>.
  The other calls of \<open>submit\<close> and \<open>submitBatch\<close> neither start nor end a flow
  and are left out.
\<close>

datatype hook_op =
    Submit submit_smart_transaction_request
  | SubmitBatch submit_smart_transaction_request
  | Resume nat
  | ApproveOrReject nat

record 'e system =
  hooks :: "(hook \<times> flow_stage) list"
  sys_world :: "'e world"

fun step :: "'e ext \<Rightarrow> 'e system \<Rightarrow> hook_op \<Rightarrow> 'e system" where
  "step X s (Submit request) =
     (case submit_begin X (SmartTransactionHook X request) (sys_world s) of
        (p, w1) \<Rightarrow> \<lparr> hooks = hooks s @ [p], sys_world = w1 \<rparr>)"
| "step X s (SubmitBatch request) =
     (case submitBatch_begin X (SmartTransactionHook X request) (sys_world s) of
        (p, w1) \<Rightarrow> \<lparr> hooks = hooks s @ [p], sys_world = w1 \<rparr>)"
| "step X s (Resume i) =
     (if i < length (hooks s)
      then (case startApprovalFlow_resume X (hooks s ! i) (sys_world s) of
              (p, w1) \<Rightarrow> \<lparr> hooks = (hooks s)[i := p], sys_world = w1 \<rparr>)
      else s)"
| "step X s (ApproveOrReject i) =
     (if i < length (hooks s) \<and> snd (hooks s ! i) = NotStarting
      then (case onApproveOrReject X (fst (hooks s ! i)) (sys_world s) of
              (h1, w1) \<Rightarrow> \<lparr> hooks = (hooks s)[i := (h1, NotStarting)], sys_world = w1 \<rparr>)
      else s)"

definition run :: "'e ext \<Rightarrow> hook_op list \<Rightarrow> 'e system \<Rightarrow> 'e system" where
  "run X ops s = foldl (step X) s ops"

definition initialSystem :: "'e \<Rightarrow> 'e system" where
  "initialSystem e =
     \<lparr> hooks = [], sys_world = \<lparr> sharedApprovalFlowId = [], env = e, trace = [] \<rparr> \<rparr>"

text \<open>
  No two calls of \<open>#startApprovalFlow\<close> overlap: whenever \<open>submit\<close> or
  \<open>submitBatch\<close> enters it, no instance is inside it.
\<close>

fun callsStartApprovalFlow :: "'e ext \<Rightarrow> hook_op \<Rightarrow> bool" where
  "callsStartApprovalFlow X (Submit request) =
     (isSmartTransaction (SmartTransactionHook X request) \<and>
      \<not> isUnsupportedTransactionTypeForSmartTransaction (SmartTransactionHook X request) \<and>
      \<not> isLegacyTransaction X (transactionMeta (SmartTransactionHook X request)) \<and>
      shouldShowStatusPage (SmartTransactionHook X request))"
| "callsStartApprovalFlow X (SubmitBatch request) =
     (isSmartTransaction (SmartTransactionHook X request) \<and>
      shouldShowStatusPage (SmartTransactionHook X request))"
| "callsStartApprovalFlow X _ = False"

definition noneStarting :: "'e system \<Rightarrow> bool" where
  "noneStarting s = list_all (\<lambda>p. snd p = NotStarting) (hooks s)"

fun noOverlap :: "'e ext \<Rightarrow> 'e system \<Rightarrow> hook_op list \<Rightarrow> bool" where
  "noOverlap X s [] = True"
| "noOverlap X s (op # ops) =
     ((callsStartApprovalFlow X op \<longrightarrow> noneStarting s) \<and> noOverlap X (step X s op) ops)"

text \<open>
  The flow an instance has started and not yet recorded: between the call of
  \<open>startFlow\<close> and the assignment of the identifier it returned.
\<close>

fun startedFlow :: "flow_stage \<Rightarrow> string set" where
  "startedFlow (StartFlowCalled (Inr fid)) = {fid} - {[]}"
| "startedFlow _ = {}"

text \<open>
  Two instances, one after the other, and the end of their flows; two instances whose
  calls of \<open>#startApprovalFlow\<close> overlap; and an approval controller that refuses to
  end a flow.
\<close>

definition exampleOps :: "hook_op list" where
  "exampleOps =
     [Submit (exampleRequest (otherType ''swap'') None), Resume 0,
      SubmitBatch (exampleRequest (otherType ''simpleSend'') None),
      Resume 1, Resume 1, Resume 1, Resume 1,
      ApproveOrReject 0, ApproveOrReject 1, ApproveOrReject 0]"

definition overlappingOps :: "hook_op list" where
  "overlappingOps =
     [Submit (exampleRequest (otherType ''swap'') None),
      Submit (exampleRequest (otherType ''simpleSend'') None),
      Resume 0, Resume 1]"

definition refusingExt :: "nat ext" where
  "refusingExt = exampleExt\<lparr>endFlow := (\<lambda>fid n. (Inl (Error ''flow not ended''), n))\<rparr>"

text \<open>
  Every active flow is accounted for: when no instance is inside
  \<open>#startApprovalFlow\<close> it is the shared flow, and otherwise one instance only is
  inside and it is the flow that instance has started.
\<close>

definition flowsAccountedFor :: "'e system \<Rightarrow> bool" where
  "flowsAccountedFor s =
     (if noneStarting s
      then activeFlows (trace (sys_world s)) \<subseteq> {sharedApprovalFlowId (sys_world s)} - {[]}
      else \<exists>i<length (hooks s).
             (\<forall>j<length (hooks s). j \<noteq> i \<longrightarrow> snd (hooks s ! j) = NotStarting) \<and>
             activeFlows (trace (sys_world s)) \<subseteq> startedFlow (snd (hooks s ! i)))"


section \<open>The gas-fee-token modal\<close>

text \<open>
  \<open>GasFeeTokenModal\<close> renders one \<open>GasFeeTokenListItem\<close> per address; the
  model is the list of their \<open>tokenAddress\<close> and \<open>isSelected\<close> properties in
  rendering order. \<open>padEnd\<close> is the string method with a one-character pad, and
  \<open>toLowerCase\<close> acts on the ASCII letters, which is all a hexadecimal address has.
\<close>

definition padEnd :: "string \<Rightarrow> nat \<Rightarrow> char \<Rightarrow> string" where
  "padEnd s n c = s @ replicate (n - length s) c"

definition NATIVE_TOKEN_ADDRESS :: string where
  "NATIVE_TOKEN_ADDRESS = padEnd ''0x0'' 42 CHR ''0''"

definition toLowerCaseChar :: "char \<Rightarrow> char" where
  "toLowerCaseChar c =
     (case map_of (zip ''ABCDEFGHIJKLMNOPQRSTUVWXYZ'' ''abcdefghijklmnopqrstuvwxyz'') c of
        None \<Rightarrow> c
      | Some l \<Rightarrow> l)"

definition toLowerCase :: "string \<Rightarrow> string" where
  "toLowerCase s = map toLowerCaseChar s"

record gas_fee_token =
  amount :: string
  balance :: string
  decimals :: nat
  gas :: string
  maxFeePerGas :: string
  maxPriorityFeePerGas :: string
  rateWei :: string
  recipient :: string
  symbol :: string
  tokenAddress :: string

record current_confirmation =
  gasFeeTokens :: "gas_fee_token list option"
  selectedGasFeeToken :: "string option"

record gas_fee_token_list_item =
  item_tokenAddress :: string
  isSelected :: bool

definition gasFeeTokenAddresses :: "current_confirmation \<Rightarrow> string list" where
  "gasFeeTokenAddresses c =
     NATIVE_TOKEN_ADDRESS #
       (case gasFeeTokens c of None \<Rightarrow> [] | Some ts \<Rightarrow> map tokenAddress ts)"

definition GasFeeTokenModal :: "current_confirmation \<Rightarrow> gas_fee_token_list_item list" where
  "GasFeeTokenModal c =
     map (\<lambda>a. \<lparr> item_tokenAddress = a,
               isSelected =
                 (map_option toLowerCase (selectedGasFeeToken c) = Some (toLowerCase a) \<or>
                  (\<not> truthy (selectedGasFeeToken c) \<and> a = NATIVE_TOKEN_ADDRESS)) \<rparr>)
       (gasFeeTokenAddresses c)"

text \<open>A token for the concrete runs.\<close>

definition exampleToken :: "string \<Rightarrow> string \<Rightarrow> gas_fee_token" where
  "exampleToken name addr =
     \<lparr> amount = ''0x3e8'', balance = ''0x929'', decimals = 3, gas = ''0x3'',
       maxFeePerGas = ''0x4'', maxPriorityFeePerGas = ''0x5'',
       rateWei = ''0x18f4a5d3c1b70000'', recipient = ''0x7'', symbol = name,
       tokenAddress = addr \<rparr>"

section \<open>Properties\<close>

subsection \<open>Unfolding\<close>

lemmas hook_defs =
  submit_def submitAfterFees_def submitBatch_def submitBatchBody_def submitBatchResponse_def
  signAndSubmitTransactions_def createSignedTransactions_def applyFeeToTransaction_def
  batchTransactions_def waitForTransactionHash_def transactionHashListener_def
  statusPageListener_def processApprovalIfNeeded_def addListenerToUpdateStatusPage_def
  updateApprovalRequest_def addApprovalRequest_def onApproveOrReject_def
  startApprovalFlow_def endExistingApprovalFlow_def SmartTransactionHook_def
  isUnsupportedTransactionTypeForSmartTransaction_def subscribe_def logged_def
  submitSmartTransactionHook_def submitBatchSmartTransactionHook_def

lemmas example_defs =
  exampleExt_def exampleRequest_def exampleMeta_def exampleTxParams_def exampleFlags_def
  exampleWorld_def exampleEvent_def exampleOccurrences_def exampleFees_def exampleResponse_def

lemma exampleExt_simps:
  "ORIGIN_METAMASK exampleExt = ''metamask''"
  "isLegacyTransaction exampleExt = (\<lambda>tm. tp_gasPrice (tm_txParams tm) \<noteq> None)"
  "decimalToHex exampleExt = (\<lambda>i. hexOfNat (nat i))"
  "startFlow exampleExt = (\<lambda>n. (Inr (''f'' @ replicate n CHR ''1''), Suc n))"
  "endFlow exampleExt = (\<lambda>fid n. (Inr (), n))"
  "acceptRequest exampleExt = (\<lambda>fid n. (Inr (), n))"
  "addRequest exampleExt = (\<lambda>r n. (Inr (), n))"
  "updateRequestState exampleExt = (\<lambda>r n. (Inr (), n))"
  "getFees exampleExt = (\<lambda>p n. (Inr exampleFees, n))"
  "approveTransactionsWithSameNonce exampleExt =
     (\<lambda>txs n. (Inr (map (\<lambda>tx. ''0xsigned'') txs), n))"
  "submitSignedTransactions exampleExt = (\<lambda>r n. (Inr (Some exampleResponse), n))"
  by (simp_all add: exampleExt_def)

subsection \<open>The log of each step\<close>

lemma endExistingApprovalFlow_log:
  "\<exists>P. trace (endExistingApprovalFlow X fid w) = trace w @ P \<and> (\<forall>c\<in>set P. approvalFlowCall c)"
  by (auto simp: endExistingApprovalFlow_def logged_def split: prod.splits sum.splits)

lemma startApprovalFlow_log:
  "\<exists>P. trace (snd (snd (startApprovalFlow X h w))) = trace w @ P \<and>
       (\<forall>c\<in>set P. approvalFlowCall c)"
proof -
  define w1 where "w1 = (if sharedApprovalFlowId w \<noteq> []
     then endExistingApprovalFlow X (sharedApprovalFlowId w) w else w)"
  have "\<exists>P. trace w1 = trace w @ P \<and> (\<forall>c\<in>set P. approvalFlowCall c)"
    unfolding w1_def
    by (cases "sharedApprovalFlowId w \<noteq> []") (simp_all add: endExistingApprovalFlow_log)
  then obtain P where P: "trace w1 = trace w @ P" "\<forall>c\<in>set P. approvalFlowCall c" by blast
  have "trace (snd (snd (startApprovalFlow X h w))) =
          trace w @ (P @ [StartFlow (fst (startFlow X (env w1)))])"
    using P
    by (simp add: startApprovalFlow_def Let_def logged_def w1_def [symmetric]
        split: prod.splits sum.splits)
  moreover have "\<forall>c\<in>set (P @ [StartFlow (fst (startFlow X (env w1)))]). approvalFlowCall c"
    using P by auto
  ultimately show ?thesis by blast
qed

lemma signAndSubmitTransactions_cases:
  assumes "signAndSubmitTransactions X h g w = (r, w1)"
  shows "(\<exists>e. r = Inl e \<and> (trace w1 = trace w \<or>
            (\<exists>txs. trace w1 = trace w @ [ApproveTransactionsWithSameNonce txs (Inl e)]))) \<or>
         (\<exists>S req. trace w1 = trace w @ S @ [SubmitSignedTransactions req r] \<and>
            signedCanceledTransactions req = [] \<and> signingPart h g S req)"
  using assms
  by (auto simp: signAndSubmitTransactions_def createSignedTransactions_def signingPart_def
      Let_def logged_def split: prod.splits sum.splits option.splits list.splits if_splits)

lemma processApprovalIfNeeded_cases:
  assumes "processApprovalIfNeeded X h u w = (r, w1)"
  shows "(\<not> shouldShowStatusPage h \<and> r = Inr () \<and> w1 = w) \<or>
         (shouldShowStatusPage h \<and>
          (\<exists>a. (\<exists>e. r = Inl e \<and> trace w1 = trace w @ [AddRequest a (Inl e)]) \<or>
               (r = Inr () \<and>
                trace w1 = trace w @ [AddRequest a (Inr ()), Subscribe StatusPageListener u])))"
  using assms
  by (auto simp: processApprovalIfNeeded_def addApprovalRequest_def
      addListenerToUpdateStatusPage_def subscribe_def Let_def logged_def
      split: prod.splits sum.splits if_splits)


subsection \<open>Regular submission\<close>

text \<open>
  C8. If \<open>isSmartTransaction\<close> is false, or the transaction type is \<open>swapAndSend\<close>,
  \<open>swapApproval\<close> or \<open>bridgeApproval\<close>, or the transaction is a legacy
  transaction, then \<open>submit\<close> returns \<open>{ transactionHash: undefined }\<close> at once and
  has no other effect: the instance, the shared flow identifier and the controllers are
  as before and the log has no new entry (no approval flow started, no fees fetched,
  nothing sent to the relay).
\<close>

theorem submit_regular_no_effect:
  assumes "\<not> isSmartTransaction h \<or>
     tm_type (transactionMeta h) \<in> {Some swapAndSend, Some swapApproval, Some bridgeApproval} \<or>
     isLegacyTransaction X (transactionMeta h)"
  shows "submit X h os w = (Returns None, h, w)"
  using assms
  by (auto simp: submit_def isUnsupportedTransactionTypeForSmartTransaction_def)

theorem submit_regular_no_effect_witness:
  "tm_type (transactionMeta (SmartTransactionHook exampleExt (exampleRequest swapApproval None)))
     = Some swapApproval \<and>
   submit exampleExt (SmartTransactionHook exampleExt (exampleRequest swapApproval None))
     [ApprovalSettled] exampleWorld
     = (Returns None, SmartTransactionHook exampleExt (exampleRequest swapApproval None),
        exampleWorld)"
proof -
  have t: "tm_type (transactionMeta (SmartTransactionHook exampleExt
             (exampleRequest swapApproval None))) = Some swapApproval"
    by (simp add: SmartTransactionHook_def exampleRequest_def exampleMeta_def)
  show ?thesis
    using t submit_regular_no_effect [of "SmartTransactionHook exampleExt
        (exampleRequest swapApproval None)" exampleExt "[ApprovalSettled]" exampleWorld]
    by simp
qed

subsection \<open>Waiting for the transaction hash\<close>

lemma transactionHashListener_None_iff:
  "transactionHashListener u st = None \<longleftrightarrow>
     st_uuid st \<noteq> u \<or> st_status st = None \<or> st_status st = Some PENDING"
  by (auto simp: transactionHashListener_def split: option.splits)

lemma transactionHashListener_qualifying:
  "st_uuid st = u \<Longrightarrow> st_status st = Some s \<Longrightarrow> s \<noteq> PENDING \<Longrightarrow>
   transactionHashListener u st =
     Some (case st_statusMetadata st of
             None \<Rightarrow> None
           | Some m \<Rightarrow> if truthy (minedHash m) then minedHash m else None)"
  by (auto simp: transactionHashListener_def split: option.splits)

lemma awaitTransactionHash_skip:
  assumes "\<forall>st'. SmartTransactionEvent st' \<in> set pre \<longrightarrow> transactionHashListener u st' = None"
    and "transactionHashListener u st = Some r"
  shows "fst (awaitTransactionHash X u (pre @ SmartTransactionEvent st # post) h w) = Some r"
  using assms
proof (induction pre arbitrary: h w)
  case Nil
  then show ?case by (simp add: Let_def)
next
  case (Cons o1 pre)
  then show ?case
    by (cases o1) (simp_all add: Let_def split: prod.splits)
qed

lemma awaitTransactionHash_pending:
  assumes "\<forall>st'. SmartTransactionEvent st' \<in> set os \<longrightarrow> transactionHashListener u st' = None"
  shows "fst (awaitTransactionHash X u os h w) = None"
  using assms
proof (induction os arbitrary: h w)
  case Nil
  then show ?case by simp
next
  case (Cons o1 os)
  then show ?case
    by (cases o1) (simp_all add: Let_def split: prod.splits)
qed

lemma onApproveOrReject_log:
  "\<exists>U. trace (snd (onApproveOrReject X h w)) = trace w @ U \<and> (\<forall>c\<in>set U. duringWait c)"
  by (auto simp: onApproveOrReject_def Let_def logged_def split: prod.splits)

lemma statusPageListener_log:
  "\<exists>U. trace (statusPageListener X u st h w) = trace w @ U \<and> (\<forall>c\<in>set U. duringWait c)"
  by (auto simp: statusPageListener_def updateApprovalRequest_def Let_def logged_def
      split: prod.splits option.splits)

lemma awaitTransactionHash_log:
  "\<exists>U. trace (snd (snd (awaitTransactionHash X u os h w))) = trace w @ U \<and>
       (\<forall>c\<in>set U. duringWait c)"
proof (induction os arbitrary: h w)
  case Nil
  then show ?case by simp
next
  case (Cons o1 os)
  show ?case
  proof (cases o1)
    case (SmartTransactionEvent st)
    define w1 where "w1 = (if shouldShowStatusPage h then statusPageListener X u st h w else w)"
    have "\<exists>U. trace w1 = trace w @ U \<and> (\<forall>c\<in>set U. duringWait c)"
      unfolding w1_def by (cases "shouldShowStatusPage h") (simp_all add: statusPageListener_log)
    then obtain U1 where U1: "trace w1 = trace w @ U1" "\<forall>c\<in>set U1. duringWait c"
      by blast
    obtain U2 where U2: "trace (snd (snd (awaitTransactionHash X u os h w1))) = trace w1 @ U2"
      "\<forall>c\<in>set U2. duringWait c"
      using Cons.IH [of h w1] by auto
    show ?thesis
    proof (cases "transactionHashListener u st")
      case None
      then have "trace (snd (snd (awaitTransactionHash X u (o1 # os) h w))) = trace w @ (U1 @ U2)"
        using U1 U2 SmartTransactionEvent by (simp add: w1_def Let_def)
      moreover have "\<forall>c\<in>set (U1 @ U2). duringWait c" using U1 U2 by auto
      ultimately show ?thesis by blast
    next
      case (Some r)
      then have "trace (snd (snd (awaitTransactionHash X u (o1 # os) h w))) = trace w @ U1"
        using U1 SmartTransactionEvent by (simp add: w1_def Let_def)
      then show ?thesis using U1 by blast
    qed
  next
    case ApprovalSettled
    obtain h1 w1 where hw: "onApproveOrReject X h w = (h1, w1)" by (cases "onApproveOrReject X h w")
    obtain U1 where U1: "trace w1 = trace w @ U1" "\<forall>c\<in>set U1. duringWait c"
      using onApproveOrReject_log [of X h w] hw by auto
    obtain U2 where U2: "trace (snd (snd (awaitTransactionHash X u os h1 w1))) = trace w1 @ U2"
      "\<forall>c\<in>set U2. duringWait c"
      using Cons.IH [of h1 w1] by auto
    have "trace (snd (snd (awaitTransactionHash X u (o1 # os) h w))) = trace w @ (U1 @ U2)"
      using U1 U2 ApprovalSettled hw by simp
    moreover have "\<forall>c\<in>set (U1 @ U2). duringWait c" using U1 U2 by auto
    ultimately show ?thesis by blast
  qed
qed

text \<open>
  C4. Status polling is publish/subscribe. \<open>#waitForTransactionHash\<close> subscribes
  to the \<open>SmartTransactionsController:smartTransaction\<close> event. Its promise
  resolves at the first event whose uuid is the submitted one and whose status is present
  and not \<open>PENDING\<close>: with \<open>statusMetadata.minedHash\<close> when that is a
  non-empty string, with \<open>null\<close> when the event carries none. Events with
  another uuid, without a status or with status \<open>PENDING\<close> never resolve it: after
  a list of only such events the promise is still pending.
\<close>

theorem waitForTransactionHash_first_qualifying_event:
  "(\<exists>U. trace (snd (snd (waitForTransactionHash X u os h w)))
          = trace w @ Subscribe TransactionHashListener u # U) \<and>
   (\<forall>pre st post s.
      os = pre @ SmartTransactionEvent st # post \<and>
      (\<forall>st'. SmartTransactionEvent st' \<in> set pre \<longrightarrow>
         st_uuid st' \<noteq> u \<or> st_status st' = None \<or> st_status st' = Some PENDING) \<and>
      st_uuid st = u \<and> st_status st = Some s \<and> s \<noteq> PENDING \<longrightarrow>
      fst (waitForTransactionHash X u os h w) =
        Some (case st_statusMetadata st of
                None \<Rightarrow> None
              | Some m \<Rightarrow> if truthy (minedHash m) then minedHash m else None)) \<and>
   ((\<forall>st'. SmartTransactionEvent st' \<in> set os \<longrightarrow>
         st_uuid st' \<noteq> u \<or> st_status st' = None \<or> st_status st' = Some PENDING) \<longrightarrow>
      fst (waitForTransactionHash X u os h w) = None)"
proof (intro conjI allI impI)
  show "\<exists>U. trace (snd (snd (waitForTransactionHash X u os h w)))
          = trace w @ Subscribe TransactionHashListener u # U"
    using awaitTransactionHash_log [of X u os h "subscribe TransactionHashListener u w"]
    by (auto simp: waitForTransactionHash_def subscribe_def)
next
  fix pre st post s
  assume a: "os = pre @ SmartTransactionEvent st # post \<and>
      (\<forall>st'. SmartTransactionEvent st' \<in> set pre \<longrightarrow>
         st_uuid st' \<noteq> u \<or> st_status st' = None \<or> st_status st' = Some PENDING) \<and>
      st_uuid st = u \<and> st_status st = Some s \<and> s \<noteq> PENDING"
  then have "\<forall>st'. SmartTransactionEvent st' \<in> set pre \<longrightarrow> transactionHashListener u st' = None"
    by (simp add: transactionHashListener_None_iff)
  moreover have "transactionHashListener u st =
     Some (case st_statusMetadata st of
             None \<Rightarrow> None
           | Some m \<Rightarrow> if truthy (minedHash m) then minedHash m else None)"
    using a transactionHashListener_qualifying by blast
  ultimately show "fst (waitForTransactionHash X u os h w) =
        Some (case st_statusMetadata st of
                None \<Rightarrow> None
              | Some m \<Rightarrow> if truthy (minedHash m) then minedHash m else None)"
    using a awaitTransactionHash_skip unfolding waitForTransactionHash_def by blast
next
  assume "\<forall>st'. SmartTransactionEvent st' \<in> set os \<longrightarrow>
         st_uuid st' \<noteq> u \<or> st_status st' = None \<or> st_status st' = Some PENDING"
  then have "\<forall>st'. SmartTransactionEvent st' \<in> set os \<longrightarrow> transactionHashListener u st' = None"
    by (simp add: transactionHashListener_None_iff)
  then show "fst (waitForTransactionHash X u os h w) = None"
    unfolding waitForTransactionHash_def by (rule awaitTransactionHash_pending)
qed

theorem waitForTransactionHash_first_qualifying_event_witness:
  "fst (waitForTransactionHash exampleExt ''u1'' exampleOccurrences
          (SmartTransactionHook exampleExt (exampleRequest bridge None)) exampleWorld)
     = Some (Some ''0xcc'') \<and>
   fst (waitForTransactionHash exampleExt ''u1'' (take 4 exampleOccurrences)
          (SmartTransactionHook exampleExt (exampleRequest bridge None)) exampleWorld)
     = None"
proof -
  let ?h = "SmartTransactionHook exampleExt (exampleRequest bridge None)"
  let ?st = "\<lparr> st_uuid = ''u1'', st_status = Some SUCCESS,
                st_statusMetadata = Some \<lparr> minedHash = Some ''0xcc'' \<rparr> \<rparr>"
  have split: "exampleOccurrences = take 4 exampleOccurrences @ SmartTransactionEvent ?st #
      [exampleEvent ''u1'' (Some SUCCESS) (Some ''0xdd'')]"
    by (simp add: exampleOccurrences_def exampleEvent_def)
  have quiet: "\<forall>st'. SmartTransactionEvent st' \<in> set (take 4 exampleOccurrences) \<longrightarrow>
         st_uuid st' \<noteq> ''u1'' \<or> st_status st' = None \<or> st_status st' = Some PENDING"
    by (auto simp: exampleOccurrences_def exampleEvent_def)
  have st: "st_uuid ?st = ''u1''" "st_status ?st = Some SUCCESS" "SUCCESS \<noteq> PENDING"
    by simp_all
  have 1: "fst (waitForTransactionHash exampleExt ''u1'' exampleOccurrences ?h exampleWorld)
      = Some (Some ''0xcc'')"
    using waitForTransactionHash_first_qualifying_event
      [of exampleExt "''u1''" exampleOccurrences ?h exampleWorld,
       THEN conjunct2, THEN conjunct1, rule_format,
       of "take 4 exampleOccurrences" ?st
          "[exampleEvent ''u1'' (Some SUCCESS) (Some ''0xdd'')]" SUCCESS]
      split quiet st
    by simp
  have 2: "fst (waitForTransactionHash exampleExt ''u1'' (take 4 exampleOccurrences) ?h exampleWorld)
      = None"
    using waitForTransactionHash_first_qualifying_event
      [of exampleExt "''u1''" "take 4 exampleOccurrences" ?h exampleWorld,
       THEN conjunct2, THEN conjunct2] quiet
    by blast
  show ?thesis using 1 2 by simp
qed


lemma waitForTransactionHash_log:
  "\<exists>U. trace (snd (snd (waitForTransactionHash X u os h w)))
          = trace w @ Subscribe TransactionHashListener u # U \<and> (\<forall>c\<in>set U. duringWait c)"
  using awaitTransactionHash_log [of X u os h "subscribe TransactionHashListener u w"]
  by (auto simp: waitForTransactionHash_def subscribe_def)


subsection \<open>submitBatch\<close>

lemma submitBatchBody_Returns:
  assumes "submitBatchBody X h os w = (Returns r, h', w')"
  shows "\<exists>L1 L2 req resp. trace w' = trace w @ L1 @ SubmitSignedTransactions req (Inr resp) # L2 \<and>
           (\<forall>req' x. SubmitSignedTransactions req' x \<notin> set (L1 @ L2)) \<and>
           r = Some (submitBatchResponse resp)"
proof -
  obtain sr w1 where s: "signAndSubmitTransactions X h None w = (sr, w1)"
    by (cases "signAndSubmitTransactions X h None w")
  from assms s obtain resp where sr: "sr = Inr resp"
    by (cases sr) (auto simp: submitBatchBody_def)
  from assms s sr obtain u where u: "(case resp of None \<Rightarrow> None | Some r \<Rightarrow> uuid r) = Some u" "u \<noteq> []"
    by (auto simp: submitBatchBody_def split: option.splits list.splits)
  obtain pr w2 where p: "processApprovalIfNeeded X h u w1 = (pr, w2)"
    by (cases "processApprovalIfNeeded X h u w1")
  from assms s sr u p have pr: "pr = Inr ()"
    by (cases pr) (auto simp: submitBatchBody_def split: option.splits list.splits)
  obtain wr h3 w3 where wt: "waitForTransactionHash X u os h w2 = (wr, h3, w3)"
    by (cases "waitForTransactionHash X u os h w2")
  from assms s sr u p pr wt have fin: "w' = w3" "r = Some (submitBatchResponse resp)"
    by (auto simp: submitBatchBody_def split: option.splits list.splits)
  from signAndSubmitTransactions_cases [OF s] sr obtain S req where
    S: "trace w1 = trace w @ S @ [SubmitSignedTransactions req (Inr resp)]"
       "S = [] \<or> (\<exists>txs. S = [ApproveTransactionsWithSameNonce txs (Inr (signedTransactions req))])"
    by (auto simp: signingPart_def split: if_splits)
  from processApprovalIfNeeded_cases [OF p] pr obtain A where
    A: "trace w2 = trace w1 @ A" "\<forall>req' x. SubmitSignedTransactions req' x \<notin> set A"
    by auto
  from waitForTransactionHash_log [of X u os h w2] wt obtain U where
    U: "trace w3 = trace w2 @ Subscribe TransactionHashListener u # U" "\<forall>c\<in>set U. duringWait c"
    by auto
  have "trace w' = trace w @ S @ SubmitSignedTransactions req (Inr resp) #
          (A @ Subscribe TransactionHashListener u # U)"
    using S A U fin by simp
  moreover have "\<forall>req' x. SubmitSignedTransactions req' x \<notin>
      set (S @ (A @ Subscribe TransactionHashListener u # U))"
    using S A U by auto
  ultimately show ?thesis using fin by blast
qed


text \<open>
  C7. \<open>submitBatch\<close> returns \<open>undefined\<close> (so the transaction controller
  publishes as usual) whenever \<open>isSmartTransaction\<close> is false, with no effect.
  When it returns for a smart transaction, the log holds exactly one relay submission,
  answered with a response, and the result is an object whose \<open>results\<close> hold one
  \<open>{ transactionHash }\<close> per entry of the response's \<open>txHashes\<close>, in the
  same order; the list is empty when the response has no \<open>txHashes\<close>.
\<close>

theorem submitBatch_results:
  "(\<not> isSmartTransaction h \<longrightarrow> submitBatch X h os w = (Returns None, h, w)) \<and>
   (isSmartTransaction h \<and> fst (submitBatch X h os w) = Returns r \<longrightarrow>
      (\<exists>L1 L2 req resp results.
         trace (snd (snd (submitBatch X h os w)))
           = trace w @ L1 @ SubmitSignedTransactions req (Inr resp) # L2 \<and>
         (\<forall>req' x. SubmitSignedTransactions req' x \<notin> set (L1 @ L2)) \<and>
         r = Some results \<and>
         map transactionHash results =
           (case resp of None \<Rightarrow> [] | Some rr \<Rightarrow>
              (case txHashes rr of None \<Rightarrow> [] | Some hs \<Rightarrow> hs))))"
proof (intro conjI impI)
  assume "\<not> isSmartTransaction h"
  then show "submitBatch X h os w = (Returns None, h, w)" by (simp add: submitBatch_def)
next
  assume a: "isSmartTransaction h \<and> fst (submitBatch X h os w) = Returns r"
  obtain sr h1 w1 where st:
    "(if shouldShowStatusPage h then startApprovalFlow X h w else (Inr (), h, w)) = (sr, h1, w1)"
    by (metis prod_cases3)
  from a st have sr: "sr = Inr ()"
    by (cases sr) (auto simp: submitBatch_def)
  obtain out h2 w2 where b: "submitBatchBody X h1 os w1 = (out, h2, w2)"
    by (metis prod_cases3)
  from a st sr b have out: "out = Returns r" "snd (snd (submitBatch X h os w)) = w2"
    by (cases out; auto simp: submitBatch_def split: prod.splits)+
  have "\<exists>P. trace w1 = trace w @ P \<and> (\<forall>c\<in>set P. approvalFlowCall c)"
    using st startApprovalFlow_log [of X h w]
    by (cases "shouldShowStatusPage h") auto
  then obtain P where P: "trace w1 = trace w @ P" "\<forall>c\<in>set P. approvalFlowCall c" by blast
  from submitBatchBody_Returns [OF b [unfolded out]] obtain L1 L2 req resp where
    L: "trace w2 = trace w1 @ L1 @ SubmitSignedTransactions req (Inr resp) # L2"
       "\<forall>req' x. SubmitSignedTransactions req' x \<notin> set (L1 @ L2)"
       "r = Some (submitBatchResponse resp)"
    by blast
  have 1: "trace (snd (snd (submitBatch X h os w)))
      = trace w @ (P @ L1) @ SubmitSignedTransactions req (Inr resp) # L2"
    using out P L by simp
  have 2: "\<forall>req' x. SubmitSignedTransactions req' x \<notin> set ((P @ L1) @ L2)"
    using P L by auto
  have 3: "map transactionHash (submitBatchResponse resp) =
           (case resp of None \<Rightarrow> [] | Some rr \<Rightarrow>
              (case txHashes rr of None \<Rightarrow> [] | Some hs \<Rightarrow> hs))"
    by (simp add: submitBatchResponse_def comp_def split: option.splits)
  show "\<exists>L1 L2 req resp results.
         trace (snd (snd (submitBatch X h os w)))
           = trace w @ L1 @ SubmitSignedTransactions req (Inr resp) # L2 \<and>
         (\<forall>req' x. SubmitSignedTransactions req' x \<notin> set (L1 @ L2)) \<and>
         r = Some results \<and>
         map transactionHash results =
           (case resp of None \<Rightarrow> [] | Some rr \<Rightarrow>
              (case txHashes rr of None \<Rightarrow> [] | Some hs \<Rightarrow> hs))"
    using 1 2 3 L(3) by blast
qed

theorem submitBatch_results_witness:
  "submitBatch exampleExt
     (SmartTransactionHook exampleExt ((exampleRequest bridge None)\<lparr>req_isSmartTransaction := False\<rparr>))
     exampleOccurrences exampleWorld
     = (Returns None,
        SmartTransactionHook exampleExt ((exampleRequest bridge None)\<lparr>req_isSmartTransaction := False\<rparr>),
        exampleWorld) \<and>
   fst (submitBatch exampleExt (SmartTransactionHook exampleExt (exampleRequest bridge None))
          exampleOccurrences exampleWorld)
     = Returns (Some [\<lparr> transactionHash = ''0xaa'' \<rparr>, \<lparr> transactionHash = ''0xbb'' \<rparr>]) \<and>
   (\<exists>L1 L2 req resp results.
      trace (snd (snd (submitBatch exampleExt
                         (SmartTransactionHook exampleExt (exampleRequest bridge None))
                         exampleOccurrences exampleWorld)))
        = trace exampleWorld @ L1 @ SubmitSignedTransactions req (Inr resp) # L2 \<and>
      (\<forall>req' x. SubmitSignedTransactions req' x \<notin> set (L1 @ L2)) \<and>
      Some [\<lparr> transactionHash = ''0xaa'' \<rparr>, \<lparr> transactionHash = ''0xbb'' \<rparr>] = Some results \<and>
      map transactionHash results =
        (case resp of None \<Rightarrow> [] | Some rr \<Rightarrow>
           (case txHashes rr of None \<Rightarrow> [] | Some hs \<Rightarrow> hs)))"
proof -
  let ?hreg = "SmartTransactionHook exampleExt
               ((exampleRequest bridge None)\<lparr>req_isSmartTransaction := False\<rparr>)"
  let ?h = "SmartTransactionHook exampleExt (exampleRequest bridge None)"
  let ?r = "Some [\<lparr> transactionHash = ''0xaa'' \<rparr>, \<lparr> transactionHash = ''0xbb'' \<rparr>]"
  have n: "\<not> isSmartTransaction ?hreg"
    by (simp add: SmartTransactionHook_def exampleRequest_def)
  have s: "isSmartTransaction ?h"
    by (simp add: SmartTransactionHook_def exampleRequest_def)
  have e: "fst (submitBatch exampleExt ?h exampleOccurrences exampleWorld) = Returns ?r"
    by (simp add: hook_defs example_defs Let_def)
  show ?thesis
    using n s e
      submitBatch_results [of ?hreg exampleExt exampleOccurrences exampleWorld,
        THEN conjunct1, rule_format]
      submitBatch_results [of ?h exampleExt exampleOccurrences exampleWorld ?r,
        THEN conjunct2, rule_format]
    by simp
qed

subsection \<open>Signing one transaction per fee\<close>

text \<open>
  C5. When the request has neither a non-empty batch nor a pre-signed transaction,
  \<open>#signAndSubmitTransactions\<close> builds, for each fee of the \<open>getFees\<close>
  response's \<open>tradeTxFees.fees\<close> (none when \<open>tradeTxFees\<close> is null), exactly
  one unsigned transaction: \<open>txParams\<close> with \<open>maxFeePerGas\<close> and
  \<open>maxPriorityFeePerGas\<close> replaced by \<open>0x\<close> followed by the hexadecimal
  encoding of the fee's values, \<open>gas\<close> and every other field unchanged, and
  \<open>chainId\<close> set to the hook's when the transaction has none. The whole list goes
  to \<open>approveTransactionsWithSameNonce\<close> in one call, and the signed transactions
  that call answers (one per unsigned transaction, by the controller's contract) are
  submitted to the relay as they are, with an empty \<open>signedCanceledTransactions\<close>.
  A failure of the signing call is thrown and nothing is submitted.
\<close>

theorem signAndSubmitTransactions_one_transaction_per_fee:
  assumes "transactions h = None \<or> transactions h = Some []"
    and "signedTransactionInHex h = None \<or> signedTransactionInHex h = Some []"
    and "chainId h \<noteq> []"
  shows
    "(let fs = (case tradeTxFees getFeesResponse of None \<Rightarrow> [] | Some t \<Rightarrow> itf_fees t);
          txs = map (\<lambda>f. (txParams h)
                    \<lparr> tp_maxFeePerGas := Some (''0x'' @ decimalToHex X (fee_maxFeePerGas f)),
                      tp_maxPriorityFeePerGas :=
                        Some (''0x'' @ decimalToHex X (fee_maxPriorityFeePerGas f)),
                      tp_chainId := (if truthy (tp_chainId (txParams h))
                                     then tp_chainId (txParams h) else Some (chainId h)) \<rparr>) fs
      in case approveTransactionsWithSameNonce X txs (env w) of
           (Inl e, e1) \<Rightarrow>
             signAndSubmitTransactions X h (Some getFeesResponse) w =
               (Inl e, w\<lparr>env := e1,
                         trace := trace w @ [ApproveTransactionsWithSameNonce txs (Inl e)]\<rparr>)
         | (Inr signed, e1) \<Rightarrow>
             (let req = \<lparr> signedTransactions = signed, signedCanceledTransactions = [],
                          sr_txParams = txParams h, sr_transactionMeta = transactionMeta h \<rparr>
              in case submitSignedTransactions X req e1 of
                   (r, e2) \<Rightarrow>
                     signAndSubmitTransactions X h (Some getFeesResponse) w =
                       (r, w\<lparr>env := e2,
                               trace := trace w @
                                 [ApproveTransactionsWithSameNonce txs (Inr signed),
                                  SubmitSignedTransactions req r]\<rparr>)))"
proof -
  have b: "batchTransactions h = []"
    using assms(1) by (auto simp: batchTransactions_def)
  have tx: "\<And>f. applyFeeToTransaction X h f False = (txParams h)
                    \<lparr> tp_maxFeePerGas := Some (''0x'' @ decimalToHex X (fee_maxFeePerGas f)),
                      tp_maxPriorityFeePerGas :=
                        Some (''0x'' @ decimalToHex X (fee_maxPriorityFeePerGas f)) \<rparr>"
    by (simp add: applyFeeToTransaction_def Let_def)
  show ?thesis
    using assms(2,3) b
    by (auto simp: signAndSubmitTransactions_def createSignedTransactions_def tx Let_def
        logged_def comp_def split: prod.splits sum.splits option.splits list.splits)
qed

theorem signAndSubmitTransactions_one_transaction_per_fee_witness:
  "transactions (SmartTransactionHook exampleExt (exampleRequest bridge None)) = None \<and>
   signedTransactionInHex (SmartTransactionHook exampleExt (exampleRequest bridge None)) = None \<and>
   chainId (SmartTransactionHook exampleExt (exampleRequest bridge None)) \<noteq> [] \<and>
   signAndSubmitTransactions exampleExt (SmartTransactionHook exampleExt (exampleRequest bridge None))
     (Some exampleFees) exampleWorld
   = (Inr (Some exampleResponse),
      exampleWorld\<lparr>trace :=
        [ApproveTransactionsWithSameNonce
           [exampleTxParams\<lparr> tp_maxFeePerGas := Some ''0xff'',
                              tp_maxPriorityFeePerGas := Some ''0x10'',
                              tp_chainId := Some ''0x1'' \<rparr>,
            exampleTxParams\<lparr> tp_maxFeePerGas := Some ''0x12c'',
                              tp_maxPriorityFeePerGas := Some ''0x14'',
                              tp_chainId := Some ''0x1'' \<rparr>]
           (Inr [''0xsigned'', ''0xsigned'']),
         SubmitSignedTransactions
           \<lparr> signedTransactions = [''0xsigned'', ''0xsigned''],
             signedCanceledTransactions = [],
             sr_txParams = exampleTxParams,
             sr_transactionMeta = exampleMeta bridge \<rparr>
           (Inr (Some exampleResponse))]\<rparr>)"
proof -
  let ?h = "SmartTransactionHook exampleExt (exampleRequest bridge None)"
  have a: "transactions ?h = None" "signedTransactionInHex ?h = None" "chainId ?h \<noteq> []"
    by (simp_all add: SmartTransactionHook_def exampleRequest_def exampleMeta_def)
  have f: "txParams ?h = exampleTxParams" "transactionMeta ?h = exampleMeta bridge"
    "chainId ?h = ''0x1''"
    by (simp_all add: SmartTransactionHook_def exampleRequest_def exampleMeta_def)
  have x: "hexOfNat 255 = ''ff''" "hexOfNat 16 = ''10''" "hexOfNat 300 = ''12c''"
    "hexOfNat 20 = ''14''"
    by (simp_all add: hexDigit_def)
  have t: "tp_chainId exampleTxParams = None" by (simp add: exampleTxParams_def)
  show ?thesis
    using a signAndSubmitTransactions_one_transaction_per_fee
      [of ?h exampleFees exampleExt exampleWorld]
    by (simp add: f x t hexDigit_def exampleFees_def exampleExt_simps exampleWorld_def Let_def)
qed


subsection \<open>The runs of submit\<close>

lemma truthy_iff: "truthy x \<longleftrightarrow> (\<exists>s. x = Some s \<and> s \<noteq> [])"
  by (cases x) auto

lemma awaitTransactionHash_result_independent:
  "fst (awaitTransactionHash X u os h w) = fst (awaitTransactionHash X' u os h' w')"
proof (induction os arbitrary: h w h' w')
  case Nil
  then show ?case by simp
next
  case (Cons o1 os)
  show ?case
  proof (cases o1)
    case (SmartTransactionEvent st)
    then show ?thesis
      using Cons.IH by (cases "transactionHashListener u st") (simp_all add: Let_def)
  next
    case ApprovalSettled
    then show ?thesis
      using Cons.IH by (simp split: prod.splits)
  qed
qed

lemma waitForTransactionHash_result_independent:
  "fst (waitForTransactionHash X u os h w) = fst (waitForTransactionHash X' u os h' w')"
  unfolding waitForTransactionHash_def by (rule awaitTransactionHash_result_independent)

lemma signAndSubmitTransactions_shape:
  assumes "signAndSubmitTransactions X h g w = (r, w1)"
  shows "(\<exists>e. r = Inl e \<and> (trace w1 = trace w \<or>
            (\<exists>txs. trace w1 = trace w @ [ApproveTransactionsWithSameNonce txs (Inl e)]))) \<or>
         (\<exists>S req. trace w1 = trace w @ S @ [SubmitSignedTransactions req r] \<and>
            signingPart h g S req)"
  using signAndSubmitTransactions_cases [OF assms] by blast

lemma processApprovalIfNeeded_shape:
  assumes "processApprovalIfNeeded X h u w = (r, w1)"
  shows "(\<exists>a e. shouldShowStatusPage h \<and> r = Inl e \<and> trace w1 = trace w @ [AddRequest a (Inl e)]) \<or>
         (\<exists>A. r = Inr () \<and> trace w1 = trace w @ A \<and> approvalPart h u A)"
  using processApprovalIfNeeded_cases [OF assms] unfolding approvalPart_def by auto

lemma startApprovalFlow_shape:
  assumes "startApprovalFlow X h w = (r, h1, w1)"
  shows "\<exists>P. (\<forall>c\<in>set P. \<exists>old x. c = EndFlow old x \<or> c = AcceptRequest old x) \<and>
           ((\<exists>e. r = Inl e \<and> h1 = h \<and> trace w1 = trace w @ P @ [StartFlow (Inl e)]) \<or>
            (\<exists>fid. r = Inr () \<and> h1 = h\<lparr>approvalFlowId := fid\<rparr> \<and>
               sharedApprovalFlowId w1 = fid \<and> trace w1 = trace w @ P @ [StartFlow (Inr fid)]))"
proof -
  define w0 where "w0 = (if sharedApprovalFlowId w \<noteq> []
     then endExistingApprovalFlow X (sharedApprovalFlowId w) w else w)"
  have "\<exists>P. trace w0 = trace w @ P \<and>
          (\<forall>c\<in>set P. \<exists>old x. c = EndFlow old x \<or> c = AcceptRequest old x)"
    unfolding w0_def
    by (auto simp: endExistingApprovalFlow_def logged_def split: prod.splits sum.splits)
  then obtain P where P: "trace w0 = trace w @ P"
    "\<forall>c\<in>set P. \<exists>old x. c = EndFlow old x \<or> c = AcceptRequest old x" by blast
  have "(\<exists>e. r = Inl e \<and> h1 = h \<and> trace w1 = trace w0 @ [StartFlow (Inl e)]) \<or>
        (\<exists>fid. r = Inr () \<and> h1 = h\<lparr>approvalFlowId := fid\<rparr> \<and>
               sharedApprovalFlowId w1 = fid \<and> trace w1 = trace w0 @ [StartFlow (Inr fid)])"
    using assms
    by (auto simp: startApprovalFlow_def Let_def logged_def w0_def [symmetric]
        split: prod.splits sum.splits)
  then show ?thesis using P by auto
qed

lemma onApproveOrReject_shape:
  assumes "onApproveOrReject X h w = (h1, w1)"
  shows "\<exists>E. trace w1 = trace w @ E \<and> endPart h E \<and>
           shouldShowStatusPage h1 = shouldShowStatusPage h"
  using assms
  by (auto simp: onApproveOrReject_def endPart_def Let_def logged_def
      split: prod.splits if_splits)

lemma awaitTransactionHash_hidden:
  "\<not> shouldShowStatusPage h \<Longrightarrow> snd (awaitTransactionHash X u os h w) = (h, w)"
proof (induction os arbitrary: w)
  case Nil
  then show ?case by simp
next
  case (Cons o1 os)
  then show ?case
    by (cases o1) (auto simp: Let_def onApproveOrReject_def split: option.splits)
qed

lemma awaitTransactionHash_hook:
  "fst (snd (awaitTransactionHash X u os h w)) = h \<or>
   fst (snd (awaitTransactionHash X u os h w)) = h\<lparr>approvalFlowEnded := True\<rparr>"
proof (induction os arbitrary: h w)
  case Nil
  then show ?case by simp
next
  case (Cons o1 os)
  show ?case
  proof (cases o1)
    case (SmartTransactionEvent st)
    then show ?thesis
      using Cons.IH by (cases "transactionHashListener u st") (simp_all add: Let_def)
  next
    case ApprovalSettled
    obtain h1 w1 where o: "onApproveOrReject X h w = (h1, w1)"
      by (cases "onApproveOrReject X h w")
    then have "h1 = h \<or> h1 = h\<lparr>approvalFlowEnded := True\<rparr>"
      by (auto simp: onApproveOrReject_def Let_def split: if_splits)
    then show ?thesis
      using Cons.IH [of h1 w1] o ApprovalSettled by auto
  qed
qed

lemma waitForTransactionHash_shape:
  assumes "waitForTransactionHash X u os h w = (r, h1, w1)"
  shows "\<exists>U. trace w1 = trace w @ Subscribe TransactionHashListener u # U \<and>
           (\<forall>c\<in>set U. duringWait c) \<and> (\<not> shouldShowStatusPage h \<longrightarrow> U = []) \<and>
           shouldShowStatusPage h1 = shouldShowStatusPage h"
proof -
  from assms have a: "awaitTransactionHash X u os h (subscribe TransactionHashListener u w)
                        = (r, h1, w1)"
    by (simp add: waitForTransactionHash_def)
  from awaitTransactionHash_log [of X u os h "subscribe TransactionHashListener u w"] a
  obtain U where U: "trace w1 = trace w @ Subscribe TransactionHashListener u # U"
    "\<forall>c\<in>set U. duringWait c"
    by (auto simp: subscribe_def)
  have "\<not> shouldShowStatusPage h \<longrightarrow> U = []"
    using awaitTransactionHash_hidden [of h X u os "subscribe TransactionHashListener u w"] a U
    by (auto simp: subscribe_def)
  moreover have "shouldShowStatusPage h1 = shouldShowStatusPage h"
    using awaitTransactionHash_hook [of X u os h "subscribe TransactionHashListener u w"] a
    by auto
  ultimately show ?thesis using U by blast
qed

text \<open>What the hash wait of \<open>submit\<close> turns a resolution into.\<close>

lemma submitAfterFees_cases:
  assumes "submitAfterFees X h fr os w = (out, h', w')"
  obtains
    (signFailed) e where "out = Throws e" "h' = h"
      "trace w' = trace w \<or>
       (\<exists>txs. trace w' = trace w @ [ApproveTransactionsWithSameNonce txs (Inl e)])"
  | (relayFailed) S req e where "out = Throws e" "h' = h"
      "trace w' = trace w @ S @ [SubmitSignedTransactions req (Inl e)]" "signingPart h (Some fr) S req"
  | (noUuid) S req resp where "out = Throws (Error ''No smart transaction UUID'')" "h' = h"
      "trace w' = trace w @ S @ [SubmitSignedTransactions req (Inr resp)]" "signingPart h (Some fr) S req"
      "\<not> truthy (case resp of None \<Rightarrow> None | Some r \<Rightarrow> uuid r)"
  | (approvalFailed) S req resp u a e where "out = Throws e" "h' = h" "shouldShowStatusPage h"
      "trace w' = trace w @ S @ [SubmitSignedTransactions req (Inr (Some resp)),
                                 AddRequest a (Inl e)]" "signingPart h (Some fr) S req"
      "uuid resp = Some u" "u \<noteq> []"
  | (asap) S req resp u A where "out = Returns (txHash resp)" "h' = h"
      "trace w' = trace w @ S @ [SubmitSignedTransactions req (Inr (Some resp))] @ A"
      "signingPart h (Some fr) S req" "approvalPart h u A" "uuid resp = Some u" "u \<noteq> []"
      "extensionReturnTxHashAsap (smartTransactions (featureFlags h)) = Some True"
      "truthy (txHash resp)"
  | (waited) S req resp u A U where
      "trace w' = trace w @ S @ [SubmitSignedTransactions req (Inr (Some resp))] @ A @
                    Subscribe TransactionHashListener u # U"
      "signingPart h (Some fr) S req" "approvalPart h u A" "\<forall>c\<in>set U. duringWait c"
      "\<not> shouldShowStatusPage h \<longrightarrow> U = []"
      "shouldShowStatusPage h' = shouldShowStatusPage h"
      "uuid resp = Some u" "u \<noteq> []"
      "\<not> (extensionReturnTxHashAsap (smartTransactions (featureFlags h)) = Some True \<and>
          truthy (txHash resp))"
      "out = (case fst (waitForTransactionHash X u os h w) of
                None \<Rightarrow> Pending
              | Some None \<Rightarrow> Throws (Error
                  ''Transaction does not have a transaction hash, there was a problem'')
              | Some (Some t) \<Rightarrow> Returns (Some t))"
proof -
  obtain sr w1 where s: "signAndSubmitTransactions X h (Some fr) w = (sr, w1)"
    by (cases "signAndSubmitTransactions X h (Some fr) w")
  note sh = signAndSubmitTransactions_shape [OF s]
  show ?thesis
  proof (cases sr)
    case (Inl e)
    then have o: "out = Throws e" "h' = h" "w' = w1"
      using assms s by (auto simp: submitAfterFees_def)
    from sh Inl consider
      "trace w1 = trace w \<or> (\<exists>txs. trace w1 = trace w @ [ApproveTransactionsWithSameNonce txs (Inl e)])"
      | S req where "trace w1 = trace w @ S @ [SubmitSignedTransactions req (Inl e)]" "signingPart h (Some fr) S req"
      by auto
    then show ?thesis
    proof cases
      case 1
      then show ?thesis using o signFailed by simp
    next
      case 2
      then show ?thesis using o relayFailed by simp
    qed
  next
    case (Inr resp)
    with sh obtain S req where
      S: "trace w1 = trace w @ S @ [SubmitSignedTransactions req (Inr resp)]" "signingPart h (Some fr) S req"
      by auto
    show ?thesis
    proof (cases "truthy (case resp of None \<Rightarrow> None | Some r \<Rightarrow> uuid r)")
      case False
      then have "out = Throws (Error ''No smart transaction UUID'')" "h' = h" "w' = w1"
        using assms s Inr
        by (auto simp: submitAfterFees_def split: option.splits list.splits)
      then show ?thesis using S False noUuid by simp
    next
      case True
      then obtain rr u where u: "resp = Some rr" "uuid rr = Some u" "u \<noteq> []"
        by (auto simp: truthy_iff split: option.splits)
      obtain pr w2 where p: "processApprovalIfNeeded X h u w1 = (pr, w2)"
        by (cases "processApprovalIfNeeded X h u w1")
      note ph = processApprovalIfNeeded_shape [OF p]
      show ?thesis
      proof (cases pr)
        case (Inl e)
        then have o: "out = Throws e" "h' = h" "w' = w2"
          using assms s Inr u p
          by (auto simp: submitAfterFees_def split: option.splits list.splits)
        from ph Inl obtain a where "shouldShowStatusPage h"
          "trace w2 = trace w1 @ [AddRequest a (Inl e)]" by auto
        then show ?thesis using o S u approvalFailed [of e S req rr a u] by simp
      next
        case (Inr x)
        with ph obtain A where A: "trace w2 = trace w1 @ A" "approvalPart h u A" by auto
        show ?thesis
        proof (cases "extensionReturnTxHashAsap (smartTransactions (featureFlags h)) = Some True \<and>
                      truthy (txHash rr)")
          case True
          then have "out = Returns (txHash rr)" "h' = h" "w' = w2"
            using assms s \<open>sr = Inr resp\<close> u p Inr
            by (auto simp: submitAfterFees_def Let_def split: option.splits list.splits)
          then show ?thesis using S A u True asap [of rr S req A u] by simp
        next
          case False
          obtain wr h3 w3 where wt: "waitForTransactionHash X u os h w2 = (wr, h3, w3)"
            by (metis prod_cases3)
          from waitForTransactionHash_shape [OF wt] obtain U where
            U: "trace w3 = trace w2 @ Subscribe TransactionHashListener u # U"
               "\<forall>c\<in>set U. duringWait c" "\<not> shouldShowStatusPage h \<longrightarrow> U = []"
               "shouldShowStatusPage h3 = shouldShowStatusPage h" by auto
          have wr: "wr = fst (waitForTransactionHash X u os h w)"
            using wt waitForTransactionHash_result_independent [of X u os h w2 X h w] by simp
          have "w' = w3" "h' = h3" "out = (case wr of
                None \<Rightarrow> Pending
              | Some None \<Rightarrow> Throws (Error
                  ''Transaction does not have a transaction hash, there was a problem'')
              | Some (Some t) \<Rightarrow> Returns (Some t))"
            using assms s \<open>sr = Inr resp\<close> u p Inr False wt
            by (auto simp: submitAfterFees_def Let_def split: option.splits list.splits)
          then show ?thesis using S A U u False wr waited [of S req rr A u U] by simp
        qed
      qed
    qed
  qed
qed




lemma parts_cong:
  assumes "shouldShowStatusPage h1 = shouldShowStatusPage h"
  shows "startPart h1 F = startPart h F" "approvalPart h1 u A = approvalPart h u A"
    "endPart h1 E = endPart h E"
  using assms by (simp_all add: startPart_def approvalPart_def endPart_def)

lemma submit_cases:
  assumes elig: "isSmartTransaction h" "\<not> isUnsupportedTransactionTypeForSmartTransaction h"
      "\<not> isLegacyTransaction X (transactionMeta h)"
    and run: "submit X h os w = (out, h', w')"
    and p: "p = (txParams h)\<lparr>tp_chainId := Some (chainId h)\<rparr>"
  obtains
    (startFailed) P e where "shouldShowStatusPage h" "out = Throws e"
      "trace w' = trace w @ P @ [StartFlow (Inl e)]"
      "\<forall>c\<in>set P. \<exists>old x. c = EndFlow old x \<or> c = AcceptRequest old x"
  | (feesFailed) F e E where "out = Returns None"
      "trace w' = trace w @ F @ [GetFees p (Inl e)] @ E" "startPart h F" "endPart h E"
  | (signFailed) F fr S e E where "out = Throws e"
      "trace w' = trace w @ F @ [GetFees p (Inr fr)] @ S @ E" "startPart h F" "endPart h E"
      "S = [] \<or> (\<exists>txs. S = [ApproveTransactionsWithSameNonce txs (Inl e)])"
  | (relayFailed) F fr S req e E where "out = Throws e"
      "trace w' = trace w @ F @ [GetFees p (Inr fr)] @ S @
                    [SubmitSignedTransactions req (Inl e)] @ E"
      "startPart h F" "signingPart h (Some fr) S req" "endPart h E"
  | (noUuid) F fr S req resp E where "out = Throws (Error ''No smart transaction UUID'')"
      "trace w' = trace w @ F @ [GetFees p (Inr fr)] @ S @
                    [SubmitSignedTransactions req (Inr resp)] @ E"
      "startPart h F" "signingPart h (Some fr) S req" "endPart h E"
      "\<not> truthy (case resp of None \<Rightarrow> None | Some r \<Rightarrow> uuid r)"
  | (approvalFailed) F fr S req resp u a e E where "out = Throws e" "shouldShowStatusPage h"
      "trace w' = trace w @ F @ [GetFees p (Inr fr)] @ S @
                    [SubmitSignedTransactions req (Inr (Some resp)), AddRequest a (Inl e)] @ E"
      "startPart h F" "signingPart h (Some fr) S req" "endPart h E" "uuid resp = Some u" "u \<noteq> []"
  | (asap) F fr S req resp u A where "out = Returns (txHash resp)"
      "trace w' = trace w @ F @ [GetFees p (Inr fr)] @ S @
                    [SubmitSignedTransactions req (Inr (Some resp))] @ A"
      "startPart h F" "signingPart h (Some fr) S req" "approvalPart h u A" "uuid resp = Some u" "u \<noteq> []"
      "extensionReturnTxHashAsap (smartTransactions (featureFlags h)) = Some True"
      "truthy (txHash resp)"
  | (waited) F fr S req resp u A U E where
      "trace w' = trace w @ F @ [GetFees p (Inr fr)] @ S @
                    [SubmitSignedTransactions req (Inr (Some resp))] @ A @
                    Subscribe TransactionHashListener u # U @ E"
      "startPart h F" "signingPart h (Some fr) S req" "approvalPart h u A" "\<forall>c\<in>set U. duringWait c"
      "\<not> shouldShowStatusPage h \<longrightarrow> U = []" "endPart h E"
      "(\<forall>e. out \<noteq> Throws e) \<longrightarrow> E = []"
      "uuid resp = Some u" "u \<noteq> []"
      "\<not> (extensionReturnTxHashAsap (smartTransactions (featureFlags h)) = Some True \<and>
          truthy (txHash resp))"
      "out = (case fst (waitForTransactionHash X u os h w) of
                None \<Rightarrow> Pending
              | Some None \<Rightarrow> Throws (Error
                  ''Transaction does not have a transaction hash, there was a problem'')
              | Some (Some t) \<Rightarrow> Returns (Some t))"
proof -
  obtain sr h1 w1 where st:
    "(if shouldShowStatusPage h then startApprovalFlow X h w else (Inr (), h, w)) = (sr, h1, w1)"
    by (metis prod_cases3)
  have start: "(\<exists>P e. shouldShowStatusPage h \<and> sr = Inl e \<and>
                  trace w1 = trace w @ P @ [StartFlow (Inl e)] \<and>
                  (\<forall>c\<in>set P. \<exists>old x. c = EndFlow old x \<or> c = AcceptRequest old x)) \<or>
               (\<exists>F. sr = Inr () \<and> trace w1 = trace w @ F \<and> startPart h F \<and>
                  (h1 = h \<or> (\<exists>fid. h1 = h\<lparr>approvalFlowId := fid\<rparr>)))"
  proof (cases "shouldShowStatusPage h")
    case True
    with st have "startApprovalFlow X h w = (sr, h1, w1)" by simp
    from startApprovalFlow_shape [OF this] True show ?thesis
      unfolding startPart_def by auto
  next
    case False
    with st show ?thesis by (auto simp: startPart_def)
  qed
  show ?thesis
  proof (cases sr)
    case (Inl e)
    then have "out = Throws e" "w' = w1"
      using run elig st by (auto simp: submit_def)
    then show ?thesis using start Inl startFailed by auto
  next
    case (Inr x)
    with start obtain F where F: "trace w1 = trace w @ F" "startPart h F"
      and h1: "h1 = h \<or> (\<exists>fid. h1 = h\<lparr>approvalFlowId := fid\<rparr>)" by auto
    from h1 have same: "shouldShowStatusPage h1 = shouldShowStatusPage h"
      "featureFlags h1 = featureFlags h" "(txParams h1)\<lparr>tp_chainId := Some (chainId h1)\<rparr> = p"
      "signingPart h1 = signingPart h"
      using p by (auto simp: signingPart_def batchTransactions_def fun_eq_iff)
    obtain gr w2 where g: "logged (GetFees p) (getFees X p) w1 = (gr, w2)"
      by (cases "logged (GetFees p) (getFees X p) w1")
    then have G: "trace w2 = trace w1 @ [GetFees p gr]"
      by (auto simp: logged_def split: prod.splits)
    show ?thesis
    proof (cases gr)
      case (Inl e)
      obtain h2 w3 where o: "onApproveOrReject X h1 w2 = (h2, w3)"
        by (cases "onApproveOrReject X h1 w2")
      from onApproveOrReject_shape [OF o] obtain E where
        E: "trace w3 = trace w2 @ E" "endPart h1 E" by auto
      have "out = Returns None" "w' = w3"
        using run elig st \<open>sr = Inr x\<close> same g Inl o by (auto simp: submit_def Let_def)
      then show ?thesis
        using F G E Inl parts_cong [OF same(1)] feesFailed [of F e E] by simp
    next
      case (Inr fr)
      obtain ob h2 w3 where a: "submitAfterFees X h1 fr os w2 = (ob, h2, w3)"
        by (metis prod_cases3)
      have fin: "\<exists>E. out = ob \<and> trace w' = trace w3 @ E \<and> endPart h2 E \<and>
                   ((\<forall>e. ob \<noteq> Throws e) \<longrightarrow> E = [])"
      proof (cases ob)
        case (Throws e)
        obtain h3 w4 where o: "onApproveOrReject X h2 w3 = (h3, w4)"
          by (cases "onApproveOrReject X h2 w3")
        from onApproveOrReject_shape [OF o] obtain E where
          E: "trace w4 = trace w3 @ E" "endPart h2 E" by auto
        have "out = Throws e" "w' = w4"
          using run elig st \<open>sr = Inr x\<close> same g Inr a Throws o
          by (auto simp: submit_def Let_def)
        then show ?thesis using E Throws by auto
      next
        case (Returns r)
        then have "out = ob" "w' = w3"
          using run elig st \<open>sr = Inr x\<close> same g Inr a
          by (auto simp: submit_def Let_def)
        then show ?thesis using Returns by (auto simp: endPart_def)
      next
        case Pending
        then have "out = ob" "w' = w3"
          using run elig st \<open>sr = Inr x\<close> same g Inr a
          by (auto simp: submit_def Let_def)
        then show ?thesis using Pending by (auto simp: endPart_def)
      qed
      then obtain E where E: "out = ob" "trace w' = trace w3 @ E" "endPart h2 E"
        "(\<forall>e. ob \<noteq> Throws e) \<longrightarrow> E = []" by blast
      note pc = parts_cong [OF same(1)]
      from a show ?thesis
      proof (cases rule: submitAfterFees_cases)
        case (signFailed e)
        then have "\<exists>S. trace w3 = trace w2 @ S \<and>
            (S = [] \<or> (\<exists>txs. S = [ApproveTransactionsWithSameNonce txs (Inl e)]))"
          by auto
        then obtain S where "trace w3 = trace w2 @ S"
          "S = [] \<or> (\<exists>txs. S = [ApproveTransactionsWithSameNonce txs (Inl e)])" by blast
        then show ?thesis
          using signFailed E F G Inr pc that(3) [of e F fr S E] by simp
      next
        case (relayFailed S req e)
        then show ?thesis
          using E F G Inr pc same that(4) [of e F fr S req E] by simp
      next
        case (noUuid S req resp)
        then show ?thesis
          using E F G Inr pc same that(5) [of F fr S req resp E] by simp
      next
        case (approvalFailed S req resp u a e)
        then show ?thesis
          using E F G Inr pc same that(6) [of e F fr S req resp a E u] by simp
      next
        case (asap S req resp u A)
        then have "E = []" using E by simp
        then show ?thesis
          using asap E F G Inr pc same that(7) [of resp F fr S req A u] by simp
      next
        case (waited S req resp u A U)
        have "fst (waitForTransactionHash X u os h1 w2) = fst (waitForTransactionHash X u os h w)"
          by (rule waitForTransactionHash_result_independent)
        then show ?thesis
          using waited E F G Inr pc same parts_cong [OF waited(6)]
            that(8) [of F fr S req resp A u U E] by simp
      qed
    qed
  qed
qed



lemma signingPart_mem:
  "signingPart h g S req \<Longrightarrow> c \<in> set S \<Longrightarrow>
   \<exists>txs. c = ApproveTransactionsWithSameNonce txs (Inr (signedTransactions req))"
  by (auto simp: signingPart_def split: if_splits)





subsection \<open>Failures\<close>





subsection \<open>The order of the steps\<close>

text \<open>
  C2, as stated, has every eligible \<open>submit\<close> wait for the transaction hash via
  status events before it returns the hash. With \<open>extensionReturnTxHashAsap\<close> set
  and a \<open>txHash\<close> in the relay's response, \<open>submit\<close> returns that hash though
  no status event was ever published, and never subscribes the hash listener.
\<close>

theorem submit_asap_returns_without_waiting:
  "isSmartTransaction
     (SmartTransactionHook exampleExt (exampleRequest (otherType ''contractInteraction'') (Some True))) \<and>
   fst (submit exampleExt
          (SmartTransactionHook exampleExt
             (exampleRequest (otherType ''contractInteraction'') (Some True)))
          [] exampleWorld) = Returns (Some ''0xaa'') \<and>
   Subscribe TransactionHashListener ''u1'' \<notin> set (trace (snd (snd (submit exampleExt
          (SmartTransactionHook exampleExt
             (exampleRequest (otherType ''contractInteraction'') (Some True)))
          [] exampleWorld))))"
  by (simp add: hook_defs example_defs Let_def)

lemma steps_append: "steps (xs @ ys) = steps xs @ steps ys"
  by (simp add: steps_def)

lemma steps_Cons: "steps (c # cs) = (if 0 < stepNumber c then [stepNumber c] else []) @ steps cs"
  by (simp add: steps_def)

lemma steps_Nil: "steps [] = []"
  by (simp add: steps_def)

lemma steps_ending:
  "\<forall>c\<in>set P. \<exists>old x. c = EndFlow old x \<or> c = AcceptRequest old x \<Longrightarrow> steps P = []"
  by (induction P) (auto simp: steps_def)

lemma steps_startPart: "startPart h F \<Longrightarrow> steps F = [] \<or> steps F = [1]"
  by (auto simp: startPart_def steps_append steps_Cons steps_Nil steps_ending split: if_splits)

lemma steps_signingPart: "signingPart h g S req \<Longrightarrow> steps S = [] \<or> steps S = [3]"
  by (auto simp: signingPart_def steps_Cons steps_Nil split: if_splits)

lemma steps_approvalPart: "approvalPart h u A \<Longrightarrow> steps A = [] \<or> steps A = [5, 6]"
  by (auto simp: approvalPart_def steps_Cons steps_Nil split: if_splits)

lemma steps_endPart: "endPart h E \<Longrightarrow> steps E = []"
  by (auto simp: endPart_def steps_Cons steps_Nil)

lemma steps_duringWait: "\<forall>c\<in>set U. duringWait c \<Longrightarrow> steps U = []"
proof (induction U)
  case Nil
  then show ?case by (simp add: steps_Nil)
next
  case (Cons c U)
  then show ?case by (cases c) (simp_all add: steps_Cons)
qed

lemma submit_steps_sorted:
  assumes "isSmartTransaction h" "\<not> isUnsupportedTransactionTypeForSmartTransaction h"
      "\<not> isLegacyTransaction X (transactionMeta h)"
  shows "\<exists>L. trace (snd (snd (submit X h os w))) = trace w @ L \<and> sorted_wrt (<) (steps L)"
proof -
  obtain out h' w' where run: "submit X h os w = (out, h', w')" by (metis prod_cases3)
  define p where "p = (txParams h)\<lparr>tp_chainId := Some (chainId h)\<rparr>"
  note st = steps_append steps_Cons steps_Nil
  have "\<exists>L. trace w' = trace w @ L \<and> sorted_wrt (<) (steps L)"
    using assms run p_def
  proof (cases rule: submit_cases)
    case (startFailed P e)
    show ?thesis
      apply (rule exI [of _ "P @ [StartFlow (Inl e)]"])
      using startFailed steps_ending [of P] by (simp add: st)
  next
    case (feesFailed F e E)
    show ?thesis
      apply (rule exI [of _ "F @ [GetFees p (Inl e)] @ E"])
      using feesFailed steps_startPart [of h F] steps_endPart [of h E] by (auto simp: st)
  next
    case (signFailed F fr S e E)
    then have "steps S = [] \<or> steps S = [3]" by (auto simp: st)
    then show ?thesis
      apply -
      apply (rule exI [of _ "F @ [GetFees p (Inr fr)] @ S @ E"])
      using signFailed steps_startPart [of h F] steps_endPart [of h E] by (auto simp: st)
  next
    case (relayFailed F fr S req e E)
    show ?thesis
      apply (rule exI [of _ "F @ [GetFees p (Inr fr)] @ S @
                    [SubmitSignedTransactions req (Inl e)] @ E"])
      using relayFailed steps_startPart [of h F] steps_endPart [of h E]
        steps_signingPart [of h "Some fr" S req] by (auto simp: st)
  next
    case (noUuid F fr S req resp E)
    show ?thesis
      apply (rule exI [of _ "F @ [GetFees p (Inr fr)] @ S @
                    [SubmitSignedTransactions req (Inr resp)] @ E"])
      using noUuid steps_startPart [of h F] steps_endPart [of h E]
        steps_signingPart [of h "Some fr" S req] by (auto simp: st)
  next
    case (approvalFailed F fr S req resp u a e E)
    show ?thesis
      apply (rule exI [of _ "F @ [GetFees p (Inr fr)] @ S @
                    [SubmitSignedTransactions req (Inr (Some resp)), AddRequest a (Inl e)] @ E"])
      using approvalFailed steps_startPart [of h F] steps_endPart [of h E]
        steps_signingPart [of h "Some fr" S req] by (auto simp: st)
  next
    case (asap F fr S req resp u A)
    show ?thesis
      apply (rule exI [of _ "F @ [GetFees p (Inr fr)] @ S @
                    [SubmitSignedTransactions req (Inr (Some resp))] @ A"])
      using asap steps_startPart [of h F] steps_approvalPart [of h u A]
        steps_signingPart [of h "Some fr" S req] by (auto simp: st)
  next
    case (waited F fr S req resp u A U E)
    show ?thesis
      apply (rule exI [of _ "F @ [GetFees p (Inr fr)] @ S @
                    [SubmitSignedTransactions req (Inr (Some resp))] @ A @
                    Subscribe TransactionHashListener u # U @ E"])
      using waited(1-5,7) steps_startPart [of h F] steps_approvalPart [of h u A]
        steps_signingPart [of h "Some fr" S req] steps_endPart [of h E] steps_duringWait [of U]
      by (auto simp: st)
  qed
  then show ?thesis unfolding run by (simp only: fst_conv snd_conv)
qed


lemma submit_hash_shape:
  assumes "isSmartTransaction h" "\<not> isUnsupportedTransactionTypeForSmartTransaction h"
      "\<not> isLegacyTransaction X (transactionMeta h)"
    and "fst (submit X h os w) = Returns (Some t)"
  shows "\<exists>F fr S req resp u A W.
     trace (snd (snd (submit X h os w))) =
       trace w @ F @ [GetFees ((txParams h)\<lparr>tp_chainId := Some (chainId h)\<rparr>) (Inr fr)] @ S @
         [SubmitSignedTransactions req (Inr (Some resp))] @ A @ W \<and>
     startPart h F \<and> signingPart h (Some fr) S req \<and> approvalPart h u A \<and>
     uuid resp = Some u \<and> u \<noteq> [] \<and>
     (if extensionReturnTxHashAsap (smartTransactions (featureFlags h)) = Some True \<and>
         truthy (txHash resp)
      then W = [] \<and> txHash resp = Some t
      else (\<exists>U. W = Subscribe TransactionHashListener u # U \<and> (\<forall>c\<in>set U. duringWait c)) \<and>
           fst (waitForTransactionHash X u os h w) = Some (Some t))"
proof -
  obtain out h' w' where run: "submit X h os w = (out, h', w')" by (metis prod_cases3)
  with assms(4) have out: "out = Returns (Some t)" by simp
  define p where "p = (txParams h)\<lparr>tp_chainId := Some (chainId h)\<rparr>"
  have "\<exists>F fr S req resp u A W.
     trace w' = trace w @ F @ [GetFees p (Inr fr)] @ S @
         [SubmitSignedTransactions req (Inr (Some resp))] @ A @ W \<and>
     startPart h F \<and> signingPart h (Some fr) S req \<and> approvalPart h u A \<and>
     uuid resp = Some u \<and> u \<noteq> [] \<and>
     (if extensionReturnTxHashAsap (smartTransactions (featureFlags h)) = Some True \<and>
         truthy (txHash resp)
      then W = [] \<and> txHash resp = Some t
      else (\<exists>U. W = Subscribe TransactionHashListener u # U \<and> (\<forall>c\<in>set U. duringWait c)) \<and>
           fst (waitForTransactionHash X u os h w) = Some (Some t))"
    using assms(1-3) run p_def
  proof (cases rule: submit_cases)
    case (asap F fr S req resp u A)
    then have "txHash resp = Some t" using out by simp
    with asap show ?thesis
      by (intro exI [of _ F] exI [of _ fr] exI [of _ S] exI [of _ req] exI [of _ resp]
          exI [of _ u] exI [of _ A] exI [of _ "[]"]) simp
  next
    case (waited F fr S req resp u A U E)
    from waited(12) out have r: "fst (waitForTransactionHash X u os h w) = Some (Some t)"
      by (auto split: option.splits)
    from waited(8) out have "E = []" by simp
    with waited r show ?thesis
      by (intro exI [of _ F] exI [of _ fr] exI [of _ S] exI [of _ req] exI [of _ resp]
          exI [of _ u] exI [of _ A] exI [of _ "Subscribe TransactionHashListener u # U"]) auto
  qed (use out in auto)
  then show ?thesis unfolding run p_def by (simp only: fst_conv snd_conv)
qed



text \<open>
  C2, amended. In every run of \<open>submit\<close> for a smart transaction of a supported,
  non-legacy type the steps are made in this order, each at most once: \<open>startFlow\<close>,
  \<open>getFees\<close>, the signing call, \<open>submitSignedTransactions\<close>,
  \<open>addRequest\<close>, the subscription of the status-page listener, the subscription
  of the hash listener. Whenever \<open>submit\<close> returns a transaction hash, the approval
  flow was started (only when the status page is shown, and after the calls that end a
  shared flow still open); the fees were retrieved; the transactions were signed (only
  when the request has neither a batch nor a pre-signed transaction) and submitted to the
  relay, which answered with a uuid; the approval request was created and the status-page
  listener subscribed (only when the status page is shown); then either
  \<open>extensionReturnTxHashAsap\<close> is set and the response has a \<open>txHash\<close>, which
  is the hash returned at once, or the hash listener was subscribed and the hash returned
  is the one the status events resolved the wait with.
\<close>

theorem submit_steps_in_order:
  assumes "isSmartTransaction h" "\<not> isUnsupportedTransactionTypeForSmartTransaction h"
      "\<not> isLegacyTransaction X (transactionMeta h)"
  shows "\<exists>L. trace (snd (snd (submit X h os w))) = trace w @ L \<and>
     sorted_wrt (<) (steps L) \<and>
     (\<forall>t. fst (submit X h os w) = Returns (Some t) \<longrightarrow>
        (\<exists>F fr S req resp u A W.
           L = F @ [GetFees ((txParams h)\<lparr>tp_chainId := Some (chainId h)\<rparr>) (Inr fr)] @ S @
                 [SubmitSignedTransactions req (Inr (Some resp))] @ A @ W \<and>
           startPart h F \<and> signingPart h (Some fr) S req \<and> approvalPart h u A \<and>
           uuid resp = Some u \<and> u \<noteq> [] \<and>
           (if extensionReturnTxHashAsap (smartTransactions (featureFlags h)) = Some True \<and>
               truthy (txHash resp)
            then W = [] \<and> txHash resp = Some t
            else (\<exists>U. W = Subscribe TransactionHashListener u # U \<and>
                      (\<forall>c\<in>set U. duringWait c)) \<and>
                 fst (waitForTransactionHash X u os h w) = Some (Some t))))"
proof -
  from submit_steps_sorted [OF assms] obtain L where
    L: "trace (snd (snd (submit X h os w))) = trace w @ L" "sorted_wrt (<) (steps L)"
    by blast
  have "\<forall>t. fst (submit X h os w) = Returns (Some t) \<longrightarrow>
        (\<exists>F fr S req resp u A W.
           L = F @ [GetFees ((txParams h)\<lparr>tp_chainId := Some (chainId h)\<rparr>) (Inr fr)] @ S @
                 [SubmitSignedTransactions req (Inr (Some resp))] @ A @ W \<and>
           startPart h F \<and> signingPart h (Some fr) S req \<and> approvalPart h u A \<and>
           uuid resp = Some u \<and> u \<noteq> [] \<and>
           (if extensionReturnTxHashAsap (smartTransactions (featureFlags h)) = Some True \<and>
               truthy (txHash resp)
            then W = [] \<and> txHash resp = Some t
            else (\<exists>U. W = Subscribe TransactionHashListener u # U \<and>
                      (\<forall>c\<in>set U. duringWait c)) \<and>
                 fst (waitForTransactionHash X u os h w) = Some (Some t)))"
  proof (intro allI impI)
    fix t
    assume r: "fst (submit X h os w) = Returns (Some t)"
    from submit_hash_shape [OF assms r] obtain F fr S req resp u A W where
      sh: "trace (snd (snd (submit X h os w))) =
             trace w @ F @ [GetFees ((txParams h)\<lparr>tp_chainId := Some (chainId h)\<rparr>) (Inr fr)] @
               S @ [SubmitSignedTransactions req (Inr (Some resp))] @ A @ W"
      and rest: "startPart h F \<and> signingPart h (Some fr) S req \<and> approvalPart h u A \<and>
           uuid resp = Some u \<and> u \<noteq> [] \<and>
           (if extensionReturnTxHashAsap (smartTransactions (featureFlags h)) = Some True \<and>
               truthy (txHash resp)
            then W = [] \<and> txHash resp = Some t
            else (\<exists>U. W = Subscribe TransactionHashListener u # U \<and>
                      (\<forall>c\<in>set U. duringWait c)) \<and>
                 fst (waitForTransactionHash X u os h w) = Some (Some t))"
      by blast
    from sh L(1) have "L = F @ [GetFees ((txParams h)\<lparr>tp_chainId := Some (chainId h)\<rparr>) (Inr fr)] @
               S @ [SubmitSignedTransactions req (Inr (Some resp))] @ A @ W"
      by simp
    with rest show "\<exists>F fr S req resp u A W.
           L = F @ [GetFees ((txParams h)\<lparr>tp_chainId := Some (chainId h)\<rparr>) (Inr fr)] @ S @
                 [SubmitSignedTransactions req (Inr (Some resp))] @ A @ W \<and>
           startPart h F \<and> signingPart h (Some fr) S req \<and> approvalPart h u A \<and>
           uuid resp = Some u \<and> u \<noteq> [] \<and>
           (if extensionReturnTxHashAsap (smartTransactions (featureFlags h)) = Some True \<and>
               truthy (txHash resp)
            then W = [] \<and> txHash resp = Some t
            else (\<exists>U. W = Subscribe TransactionHashListener u # U \<and>
                      (\<forall>c\<in>set U. duringWait c)) \<and>
                 fst (waitForTransactionHash X u os h w) = Some (Some t))"
      by blast
  qed
  with L show ?thesis by blast
qed

theorem submit_steps_in_order_witness:
  "isSmartTransaction
     (SmartTransactionHook exampleExt (exampleRequest (otherType ''contractInteraction'') None)) \<and>
   fst (submit exampleExt
          (SmartTransactionHook exampleExt (exampleRequest (otherType ''contractInteraction'') None))
          exampleOccurrences exampleWorld) = Returns (Some ''0xcc'') \<and>
   (\<exists>F fr S req resp A U.
      trace (snd (snd (submit exampleExt
          (SmartTransactionHook exampleExt (exampleRequest (otherType ''contractInteraction'') None))
          exampleOccurrences exampleWorld))) =
        F @ [GetFees (exampleTxParams\<lparr>tp_chainId := Some ''0x1''\<rparr>) (Inr fr)] @ S @
          [SubmitSignedTransactions req (Inr (Some resp))] @ A @
          Subscribe TransactionHashListener ''u1'' # U)"
proof -
  let ?h = "SmartTransactionHook exampleExt (exampleRequest (otherType ''contractInteraction'') None)"
  have a: "isSmartTransaction ?h" "\<not> isUnsupportedTransactionTypeForSmartTransaction ?h"
    "\<not> isLegacyTransaction exampleExt (transactionMeta ?h)"
    by (simp_all add: hook_defs example_defs)
  have r: "fst (submit exampleExt ?h exampleOccurrences exampleWorld) = Returns (Some ''0xcc'')"
    by (simp add: hook_defs example_defs Let_def)
  have f: "extensionReturnTxHashAsap (smartTransactions (featureFlags ?h)) = None"
    "(txParams ?h)\<lparr>tp_chainId := Some (chainId ?h)\<rparr> = exampleTxParams\<lparr>tp_chainId := Some ''0x1''\<rparr>"
    "trace exampleWorld = []"
    by (simp_all add: hook_defs example_defs)
  from submit_steps_in_order [OF a, of exampleOccurrences exampleWorld] r
  obtain F fr S req resp u A W where
    s: "trace (snd (snd (submit exampleExt ?h exampleOccurrences exampleWorld))) =
          trace exampleWorld @ F @
          [GetFees ((txParams ?h)\<lparr>tp_chainId := Some (chainId ?h)\<rparr>) (Inr fr)] @ S @
          [SubmitSignedTransactions req (Inr (Some resp))] @ A @ W"
      "uuid resp = Some u"
      "if extensionReturnTxHashAsap (smartTransactions (featureFlags ?h)) = Some True \<and>
          truthy (txHash resp)
       then W = [] \<and> txHash resp = Some ''0xcc''
       else (\<exists>U. W = Subscribe TransactionHashListener u # U \<and> (\<forall>c\<in>set U. duringWait c)) \<and>
            fst (waitForTransactionHash exampleExt u exampleOccurrences ?h exampleWorld)
              = Some (Some ''0xcc'')"
    by blast
  from s(3) f(1) obtain U where W: "W = Subscribe TransactionHashListener u # U" by auto
  have "SubmitSignedTransactions req (Inr (Some resp)) \<in>
          set (trace (snd (snd (submit exampleExt ?h exampleOccurrences exampleWorld))))"
    using s(1) by simp
  then have "resp = exampleResponse"
    by (simp add: hook_defs example_defs Let_def)
  with s(2) have "u = ''u1''" by (simp add: exampleResponse_def)
  with s(1) W f have "\<exists>F fr S req resp A U.
      trace (snd (snd (submit exampleExt ?h exampleOccurrences exampleWorld))) =
        F @ [GetFees (exampleTxParams\<lparr>tp_chainId := Some ''0x1''\<rparr>) (Inr fr)] @ S @
          [SubmitSignedTransactions req (Inr (Some resp))] @ A @
          Subscribe TransactionHashListener ''u1'' # U"
    by (simp only: append_Nil) blast
  with a r show ?thesis by simp
qed

subsection \<open>Returning the hash as soon as the relay gives it\<close>





subsection \<open>The status page\<close>

lemma signAndSubmitTransactions_no_ui:
  assumes "signAndSubmitTransactions X h g w = (r, w1)"
  shows "\<exists>S. trace w1 = trace w @ S \<and> (\<forall>c\<in>set S. \<not> approvalUiCall c)"
proof -
  from signAndSubmitTransactions_shape [OF assms] consider
    "trace w1 = trace w" |
    e txs where "trace w1 = trace w @ [ApproveTransactionsWithSameNonce txs (Inl e)]" |
    S req where "trace w1 = trace w @ S @ [SubmitSignedTransactions req r]" "signingPart h g S req"
    by blast
  then show ?thesis
  proof cases
    case 1
    then show ?thesis by simp
  next
    case 2
    then show ?thesis by simp
  next
    case 3
    have "\<forall>c\<in>set (S @ [SubmitSignedTransactions req r]). \<not> approvalUiCall c"
      using 3(2) by (auto dest: signingPart_mem)
    with 3(1) show ?thesis by blast
  qed
qed

lemma submitBatchBody_hidden:
  assumes "\<not> shouldShowStatusPage h" and "submitBatchBody X h os w = (out, h', w')"
  shows "\<exists>R. trace w' = trace w @ R \<and> (\<forall>c\<in>set R. \<not> approvalUiCall c)"
proof -
  obtain sr w1 where s: "signAndSubmitTransactions X h None w = (sr, w1)"
    by (cases "signAndSubmitTransactions X h None w")
  from signAndSubmitTransactions_no_ui [OF s] obtain S where
    S: "trace w1 = trace w @ S" "\<forall>c\<in>set S. \<not> approvalUiCall c" by blast
  have p: "\<And>u. processApprovalIfNeeded X h u w1 = (Inr (), w1)"
    using assms(1) by (simp add: processApprovalIfNeeded_def)
  have wt: "\<And>u. snd (snd (waitForTransactionHash X u os h w1))
                = subscribe TransactionHashListener u w1"
    using assms(1) awaitTransactionHash_hidden [of h X _ os]
    by (simp add: waitForTransactionHash_def)
  have "w' = w1 \<or> (\<exists>u. w' = subscribe TransactionHashListener u w1)"
    using assms(2) s p wt
    by (auto simp: submitBatchBody_def split: sum.splits option.splits list.splits prod.splits)
       (metis snd_conv)+
  then show ?thesis
  proof
    assume "w' = w1"
    with S show ?thesis by blast
  next
    assume "\<exists>u. w' = subscribe TransactionHashListener u w1"
    then obtain u where "w' = subscribe TransactionHashListener u w1" by blast
    then have "trace w' = trace w @ (S @ [Subscribe TransactionHashListener u])"
      using S by (simp add: subscribe_def)
    moreover have "\<forall>c\<in>set (S @ [Subscribe TransactionHashListener u]). \<not> approvalUiCall c"
      using S by auto
    ultimately show ?thesis by blast
  qed
qed

lemma submitBatchBody_hook:
  "shouldShowStatusPage (fst (snd (submitBatchBody X h os w))) = shouldShowStatusPage h"
proof -
  have "\<And>u w2. shouldShowStatusPage (fst (snd (waitForTransactionHash X u os h w2)))
                  = shouldShowStatusPage h"
    using awaitTransactionHash_hook [of X _ os h]
    by (auto simp: waitForTransactionHash_def) (metis hook.select_convs hook.surjective hook.update_convs)+
  then show ?thesis
    by (auto simp: submitBatchBody_def split: sum.splits option.splits list.splits prod.splits)
       (metis fst_conv snd_conv)+
qed


lemma submitBatchBody_grows:
  "\<exists>R. trace (snd (snd (submitBatchBody X h os w))) = trace w @ R"
proof -
  obtain sr w1 where s: "signAndSubmitTransactions X h None w = (sr, w1)"
    by (cases "signAndSubmitTransactions X h None w")
  from signAndSubmitTransactions_no_ui [OF s] obtain S where S: "trace w1 = trace w @ S" by blast
  have p: "\<And>u. \<exists>A. trace (snd (processApprovalIfNeeded X h u w1)) = trace w1 @ A"
  proof -
    fix u
    obtain pr w2 where "processApprovalIfNeeded X h u w1 = (pr, w2)"
      by (cases "processApprovalIfNeeded X h u w1")
    from processApprovalIfNeeded_shape [OF this] this show
      "\<exists>A. trace (snd (processApprovalIfNeeded X h u w1)) = trace w1 @ A" by auto
  qed
  have wt: "\<And>u w2. \<exists>U. trace (snd (snd (waitForTransactionHash X u os h w2))) = trace w2 @ U"
    using waitForTransactionHash_log by blast
  show ?thesis
  proof (cases sr)
    case (Inl e)
    then show ?thesis using s S by (simp add: submitBatchBody_def)
  next
    case (Inr resp)
    show ?thesis
    proof (cases "truthy (case resp of None \<Rightarrow> None | Some r \<Rightarrow> uuid r)")
      case False
      then show ?thesis using s S Inr
        by (auto simp: submitBatchBody_def split: option.splits list.splits)
    next
      case True
      then obtain u where u: "(case resp of None \<Rightarrow> None | Some r \<Rightarrow> uuid r) = Some u" "u \<noteq> []"
        by (auto simp: truthy_iff)
      obtain pr w2 where pp: "processApprovalIfNeeded X h u w1 = (pr, w2)"
        by (cases "processApprovalIfNeeded X h u w1")
      with p [of u] obtain A where A: "trace w2 = trace w1 @ A" by auto
      show ?thesis
      proof (cases pr)
        case (Inl e)
        then show ?thesis using s S Inr u pp A \<open>sr = Inr resp\<close>
          by (auto simp: submitBatchBody_def split: option.splits list.splits)
      next
        case (Inr x)
        obtain wr h3 w3 where ww: "waitForTransactionHash X u os h w2 = (wr, h3, w3)"
          by (metis prod_cases3)
        with wt [of u w2] obtain U where U: "trace w3 = trace w2 @ U" by auto
        have "snd (snd (submitBatchBody X h os w)) = w3"
          using s \<open>sr = Inr resp\<close> u pp Inr ww
          by (auto simp: submitBatchBody_def split: option.splits list.splits)
        then show ?thesis using S A U by simp
      qed
    qed
  qed
qed

text \<open>
  A smart transaction whose type is not \<open>bridge\<close> is not always shown the status
  page: when its type is \<open>swapAndSend\<close>, or when it is a legacy transaction,
  \<open>submit\<close> hands it back to regular submission before anything else, and no
  approval flow is started although \<open>#shouldShowStatusPage\<close> is true.
\<close>

theorem submit_hands_back_without_status_page:
  "isSmartTransaction (SmartTransactionHook exampleExt (exampleRequest swapAndSend None)) \<and>
   tm_type (transactionMeta (SmartTransactionHook exampleExt (exampleRequest swapAndSend None)))
     = Some swapAndSend \<and>
   shouldShowStatusPage (SmartTransactionHook exampleExt (exampleRequest swapAndSend None)) \<and>
   trace (snd (snd (submit exampleExt
     (SmartTransactionHook exampleExt (exampleRequest swapAndSend None))
     exampleOccurrences exampleWorld))) = [] \<and>
   isSmartTransaction (SmartTransactionHook exampleExt legacyRequest) \<and>
   tm_type (transactionMeta (SmartTransactionHook exampleExt legacyRequest))
     = Some (otherType ''swap'') \<and>
   isLegacyTransaction exampleExt (transactionMeta (SmartTransactionHook exampleExt legacyRequest)) \<and>
   shouldShowStatusPage (SmartTransactionHook exampleExt legacyRequest) \<and>
   trace (snd (snd (submit exampleExt (SmartTransactionHook exampleExt legacyRequest)
     exampleOccurrences exampleWorld))) = []"
  by (simp add: submit_def SmartTransactionHook_def legacyRequest_def
      isUnsupportedTransactionTypeForSmartTransaction_def exampleExt_simps exampleRequest_def
      exampleMeta_def exampleTxParams_def exampleFlags_def exampleWorld_def)

text \<open>
  C6. \<open>#shouldShowStatusPage\<close> is false exactly for a bridge transaction whose
  request carries no non-empty batch. Then \<open>submit\<close> and \<open>submitBatch\<close>
  make no call that shows, updates or closes the status page (no \<open>startFlow\<close>,
  \<open>endFlow\<close>, \<open>acceptRequest\<close>, \<open>addRequest\<close> or
  \<open>updateRequestState\<close>, and no status-page listener). In every other case a
  \<open>submit\<close> past its guard (a smart transaction of a supported type that is not
  a legacy transaction), and a \<open>submitBatch\<close> of a smart transaction, call
  \<open>startFlow\<close> before anything else but the calls that end a shared flow still
  open; so the flow is started before anything is submitted.
\<close>

theorem status_page_shown_unless_bridge:
  "(shouldShowStatusPage (SmartTransactionHook X request) \<longleftrightarrow>
      \<not> (tm_type (req_transactionMeta request) = Some bridge \<and>
         (req_transactions request = None \<or> req_transactions request = Some []))) \<and>
   (\<not> shouldShowStatusPage h \<longrightarrow>
      (\<exists>L. trace (snd (snd (submit X h os w))) = trace w @ L \<and>
           (\<forall>c\<in>set L. \<not> approvalUiCall c)) \<and>
      (\<exists>L. trace (snd (snd (submitBatch X h os w))) = trace w @ L \<and>
           (\<forall>c\<in>set L. \<not> approvalUiCall c))) \<and>
   (shouldShowStatusPage h \<and> isSmartTransaction h \<and>
    \<not> isUnsupportedTransactionTypeForSmartTransaction h \<and>
    \<not> isLegacyTransaction X (transactionMeta h) \<longrightarrow>
      (\<exists>P r R. trace (snd (snd (submit X h os w))) = trace w @ P @ StartFlow r # R \<and>
         (\<forall>c\<in>set P. \<exists>old x. c = EndFlow old x \<or> c = AcceptRequest old x))) \<and>
   (shouldShowStatusPage h \<and> isSmartTransaction h \<longrightarrow>
      (\<exists>P r R. trace (snd (snd (submitBatch X h os w))) = trace w @ P @ StartFlow r # R \<and>
         (\<forall>c\<in>set P. \<exists>old x. c = EndFlow old x \<or> c = AcceptRequest old x)))"
proof (intro conjI impI)
  show "shouldShowStatusPage (SmartTransactionHook X request) \<longleftrightarrow>
      \<not> (tm_type (req_transactionMeta request) = Some bridge \<and>
         (req_transactions request = None \<or> req_transactions request = Some []))"
    by (auto simp: SmartTransactionHook_def split: option.splits)
next
  assume hid: "\<not> shouldShowStatusPage h"
  obtain out h' w' where run: "submit X h os w = (out, h', w')" by (metis prod_cases3)
  define p where "p = (txParams h)\<lparr>tp_chainId := Some (chainId h)\<rparr>"
  have "\<exists>L. trace w' = trace w @ L \<and> (\<forall>c\<in>set L. \<not> approvalUiCall c)"
  proof (cases "isSmartTransaction h \<and> \<not> isUnsupportedTransactionTypeForSmartTransaction h \<and>
                \<not> isLegacyTransaction X (transactionMeta h)")
    case False
    then have "w' = w" using run by (auto simp: submit_def)
    then show ?thesis by simp
  next
    case True
    then have e: "isSmartTransaction h" "\<not> isUnsupportedTransactionTypeForSmartTransaction h"
      "\<not> isLegacyTransaction X (transactionMeta h)" by simp_all
    have empty: "\<And>F. startPart h F \<Longrightarrow> F = []" "\<And>E. endPart h E \<Longrightarrow> E = []"
      "\<And>u A. approvalPart h u A \<Longrightarrow> A = []"
      using hid by (auto simp: startPart_def endPart_def approvalPart_def)
    from e run p_def show ?thesis
    proof (cases rule: submit_cases)
      case (startFailed P e)
      then show ?thesis using hid by simp
    next
      case (feesFailed F e E)
      then show ?thesis by (auto dest!: empty)
    next
      case (signFailed F fr S e E)
      then show ?thesis by (auto dest!: empty)
    next
      case (relayFailed F fr S req e E)
      show ?thesis
        apply (rule exI [of _ "[GetFees p (Inr fr)] @ S @ [SubmitSignedTransactions req (Inl e)]"])
        using relayFailed by (auto dest!: empty dest: signingPart_mem)
    next
      case (noUuid F fr S req resp E)
      show ?thesis
        apply (rule exI [of _ "[GetFees p (Inr fr)] @ S @ [SubmitSignedTransactions req (Inr resp)]"])
        using noUuid by (auto dest!: empty dest: signingPart_mem)
    next
      case (approvalFailed F fr S req resp u a e E)
      then show ?thesis using hid by simp
    next
      case (asap F fr S req resp u A)
      show ?thesis
        apply (rule exI [of _ "[GetFees p (Inr fr)] @ S @
                 [SubmitSignedTransactions req (Inr (Some resp))]"])
        using asap by (auto dest!: empty dest: signingPart_mem)
    next
      case (waited F fr S req resp u A U E)
      show ?thesis
        apply (rule exI [of _ "[GetFees p (Inr fr)] @ S @
                 [SubmitSignedTransactions req (Inr (Some resp)),
                  Subscribe TransactionHashListener u]"])
        using waited hid by (auto dest!: empty dest: signingPart_mem)
    qed
  qed
  then show "\<exists>L. trace (snd (snd (submit X h os w))) = trace w @ L \<and>
           (\<forall>c\<in>set L. \<not> approvalUiCall c)"
    unfolding run by (simp only: fst_conv snd_conv)
next
  assume hid: "\<not> shouldShowStatusPage h"
  show "\<exists>L. trace (snd (snd (submitBatch X h os w))) = trace w @ L \<and>
           (\<forall>c\<in>set L. \<not> approvalUiCall c)"
  proof (cases "isSmartTransaction h")
    case False
    then show ?thesis by (simp add: submitBatch_def)
  next
    case True
    obtain ob h2 w2 where b: "submitBatchBody X h os w = (ob, h2, w2)" by (metis prod_cases3)
    from submitBatchBody_hidden [OF hid b] obtain R where
      R: "trace w2 = trace w @ R" "\<forall>c\<in>set R. \<not> approvalUiCall c" by blast
    have "\<not> shouldShowStatusPage h2"
      using submitBatchBody_hook [of X h os w] b hid by simp
    then have "onApproveOrReject X h2 w2 = (h2, w2)" by (simp add: onApproveOrReject_def)
    then have "snd (snd (submitBatch X h os w)) = w2"
      using True hid b by (cases ob) (simp_all add: submitBatch_def)
    with R show ?thesis by auto
  qed
next
  assume a: "shouldShowStatusPage h \<and> isSmartTransaction h \<and>
    \<not> isUnsupportedTransactionTypeForSmartTransaction h \<and>
    \<not> isLegacyTransaction X (transactionMeta h)"
  obtain out h' w' where run: "submit X h os w = (out, h', w')" by (metis prod_cases3)
  define p where "p = (txParams h)\<lparr>tp_chainId := Some (chainId h)\<rparr>"
  have st: "\<And>F. startPart h F \<Longrightarrow> \<exists>P fid. F = P @ [StartFlow (Inr fid)] \<and>
             (\<forall>c\<in>set P. \<exists>old x. c = EndFlow old x \<or> c = AcceptRequest old x)"
    using a by (simp add: startPart_def)
  have "\<exists>P r R. trace w' = trace w @ P @ StartFlow r # R \<and>
         (\<forall>c\<in>set P. \<exists>old x. c = EndFlow old x \<or> c = AcceptRequest old x)"
  proof -
    have "(\<exists>P e. trace w' = trace w @ P @ [StartFlow (Inl e)] \<and>
             (\<forall>c\<in>set P. \<exists>old x. c = EndFlow old x \<or> c = AcceptRequest old x)) \<or>
          (\<exists>F R. startPart h F \<and> trace w' = trace w @ F @ R)"
    proof -
      from a have e: "isSmartTransaction h" "\<not> isUnsupportedTransactionTypeForSmartTransaction h"
        "\<not> isLegacyTransaction X (transactionMeta h)" by simp_all
      from e run p_def show ?thesis
        by (cases rule: submit_cases) blast+
    qed
    then show ?thesis
    proof
      assume "\<exists>P e. trace w' = trace w @ P @ [StartFlow (Inl e)] \<and>
             (\<forall>c\<in>set P. \<exists>old x. c = EndFlow old x \<or> c = AcceptRequest old x)"
      then show ?thesis by auto
    next
      assume "\<exists>F R. startPart h F \<and> trace w' = trace w @ F @ R"
      then obtain F R where F: "startPart h F" "trace w' = trace w @ F @ R" by blast
      from st [OF F(1)] obtain P fid where "F = P @ [StartFlow (Inr fid)]"
        "\<forall>c\<in>set P. \<exists>old x. c = EndFlow old x \<or> c = AcceptRequest old x" by blast
      with F(2) show ?thesis by auto
    qed
  qed
  then show "\<exists>P r R. trace (snd (snd (submit X h os w))) = trace w @ P @ StartFlow r # R \<and>
         (\<forall>c\<in>set P. \<exists>old x. c = EndFlow old x \<or> c = AcceptRequest old x)"
    unfolding run by (simp only: fst_conv snd_conv)
next
  assume a: "shouldShowStatusPage h \<and> isSmartTransaction h"
  obtain sr h1 w1 where s: "startApprovalFlow X h w = (sr, h1, w1)" by (metis prod_cases3)
  from startApprovalFlow_shape [OF s] obtain P r where
    P: "\<forall>c\<in>set P. \<exists>old x. c = EndFlow old x \<or> c = AcceptRequest old x"
       "trace w1 = trace w @ P @ [StartFlow r]" by blast
  have "\<exists>R. trace (snd (snd (submitBatch X h os w))) = trace w1 @ R"
  proof (cases sr)
    case (Inl e)
    then show ?thesis using a s by (simp add: submitBatch_def)
  next
    case (Inr x)
    obtain ob h2 w2 where b: "submitBatchBody X h1 os w1 = (ob, h2, w2)" by (metis prod_cases3)
    from submitBatchBody_grows [of X h1 os w1] b obtain R where R: "trace w2 = trace w1 @ R"
      by auto
    obtain h3 w3 where o: "onApproveOrReject X h2 w2 = (h3, w3)"
      by (cases "onApproveOrReject X h2 w2")
    from onApproveOrReject_shape [OF o] obtain E where E: "trace w3 = trace w2 @ E" by blast
    have "snd (snd (submitBatch X h os w)) = w2 \<or> snd (snd (submitBatch X h os w)) = w3"
      using a s Inr b o by (cases ob) (simp_all add: submitBatch_def)
    then show ?thesis using R E by auto
  qed
  then obtain R where "trace (snd (snd (submitBatch X h os w))) = trace w1 @ R" by blast
  with P show "\<exists>P r R. trace (snd (snd (submitBatch X h os w))) = trace w @ P @ StartFlow r # R \<and>
         (\<forall>c\<in>set P. \<exists>old x. c = EndFlow old x \<or> c = AcceptRequest old x)"
    by auto
qed


theorem status_page_shown_unless_bridge_witness:
  "\<not> shouldShowStatusPage (SmartTransactionHook exampleExt (exampleRequest bridge None)) \<and>
   (\<exists>L. trace (snd (snd (submit exampleExt
             (SmartTransactionHook exampleExt (exampleRequest bridge None))
             exampleOccurrences exampleWorld))) = trace exampleWorld @ L \<and>
        (\<forall>c\<in>set L. \<not> approvalUiCall c)) \<and>
   (\<exists>L. trace (snd (snd (submitBatch exampleExt
             (SmartTransactionHook exampleExt (exampleRequest bridge None))
             exampleOccurrences exampleWorld))) = trace exampleWorld @ L \<and>
        (\<forall>c\<in>set L. \<not> approvalUiCall c)) \<and>
   shouldShowStatusPage
     (SmartTransactionHook exampleExt (exampleRequest (otherType ''swap'') None)) \<and>
   isSmartTransaction
     (SmartTransactionHook exampleExt (exampleRequest (otherType ''swap'') None)) \<and>
   (\<exists>P r R. trace (snd (snd (submit exampleExt
             (SmartTransactionHook exampleExt (exampleRequest (otherType ''swap'') None))
             exampleOccurrences exampleWorld))) = trace exampleWorld @ P @ StartFlow r # R \<and>
        (\<forall>c\<in>set P. \<exists>old x. c = EndFlow old x \<or> c = AcceptRequest old x)) \<and>
   (\<exists>P r R. trace (snd (snd (submitBatch exampleExt
             (SmartTransactionHook exampleExt (exampleRequest (otherType ''swap'') None))
             exampleOccurrences exampleWorld))) = trace exampleWorld @ P @ StartFlow r # R \<and>
        (\<forall>c\<in>set P. \<exists>old x. c = EndFlow old x \<or> c = AcceptRequest old x))"
proof -
  let ?hb = "SmartTransactionHook exampleExt (exampleRequest bridge None)"
  let ?hs = "SmartTransactionHook exampleExt (exampleRequest (otherType ''swap'') None)"
  have b: "\<not> shouldShowStatusPage ?hb"
    by (simp add: hook_defs example_defs)
  have s: "shouldShowStatusPage ?hs" "isSmartTransaction ?hs"
    "\<not> isUnsupportedTransactionTypeForSmartTransaction ?hs"
    "\<not> isLegacyTransaction exampleExt (transactionMeta ?hs)"
    by (simp_all add: hook_defs example_defs)
  note t1 = status_page_shown_unless_bridge [of exampleExt _ ?hb exampleOccurrences exampleWorld]
  note t2 = status_page_shown_unless_bridge [of exampleExt _ ?hs exampleOccurrences exampleWorld]
  from t1 b have 1: "(\<exists>L. trace (snd (snd (submit exampleExt ?hb exampleOccurrences exampleWorld)))
        = trace exampleWorld @ L \<and> (\<forall>c\<in>set L. \<not> approvalUiCall c)) \<and>
      (\<exists>L. trace (snd (snd (submitBatch exampleExt ?hb exampleOccurrences exampleWorld)))
        = trace exampleWorld @ L \<and> (\<forall>c\<in>set L. \<not> approvalUiCall c))"
    by blast
  from t2 s have 2: "\<exists>P r R. trace (snd (snd (submit exampleExt ?hs exampleOccurrences exampleWorld)))
        = trace exampleWorld @ P @ StartFlow r # R \<and>
        (\<forall>c\<in>set P. \<exists>old x. c = EndFlow old x \<or> c = AcceptRequest old x)"
    by blast
  from t2 s have 3: "\<exists>P r R. trace (snd (snd (submitBatch exampleExt ?hs exampleOccurrences exampleWorld)))
        = trace exampleWorld @ P @ StartFlow r # R \<and>
        (\<forall>c\<in>set P. \<exists>old x. c = EndFlow old x \<or> c = AcceptRequest old x)"
    by blast
  from b s(1,2) 1 2 3 show ?thesis by (intro conjI) blast+
qed


subsection \<open>One approval flow at a time\<close>

lemma activeFlows_append: "activeFlows (xs @ ys) = foldl flowStep (activeFlows xs) ys"
  by (simp add: activeFlows_def)

lemma obeys_append: "obeys A (xs @ ys) = (obeys A xs \<and> obeys (foldl flowStep A xs) ys)"
proof (induction xs arbitrary: A)
  case Nil
  then show ?case by simp
next
  case (Cons c xs)
  then show ?case by (cases c) simp_all
qed

lemma controllerObeys_append:
  "controllerObeys (xs @ ys) = (controllerObeys xs \<and> obeys (activeFlows xs) ys)"
  by (simp add: controllerObeys_def activeFlows_def obeys_append)


lemma endExistingApprovalFlow_exact:
  "\<exists>P. trace (endExistingApprovalFlow X s w) = trace w @ P \<and>
       ((\<exists>x. P = [EndFlow s (Inl x)]) \<or> (\<exists>y. P = [EndFlow s (Inr ()), AcceptRequest s y]))"
  by (auto simp: endExistingApprovalFlow_def logged_def split: prod.splits sum.splits)

lemma startApprovalFlow_exact:
  assumes "startApprovalFlow X h w = (r, h1, w1)"
  shows "\<exists>P sr. trace w1 = trace w @ P @ [StartFlow sr] \<and>
     (if sharedApprovalFlowId w = [] then P = []
      else (\<exists>x. P = [EndFlow (sharedApprovalFlowId w) (Inl x)]) \<or>
           (\<exists>y. P = [EndFlow (sharedApprovalFlowId w) (Inr ()),
                      AcceptRequest (sharedApprovalFlowId w) y])) \<and>
     (\<forall>fid. sr = Inr fid \<longrightarrow>
        r = Inr () \<and> h1 = h\<lparr>approvalFlowId := fid\<rparr> \<and> sharedApprovalFlowId w1 = fid) \<and>
     (\<forall>e. sr = Inl e \<longrightarrow> r = Inl e \<and> h1 = h)"
proof -
  define w0 where "w0 = (if sharedApprovalFlowId w \<noteq> []
     then endExistingApprovalFlow X (sharedApprovalFlowId w) w else w)"
  have "\<exists>P. trace w0 = trace w @ P \<and>
     (if sharedApprovalFlowId w = [] then P = []
      else (\<exists>x. P = [EndFlow (sharedApprovalFlowId w) (Inl x)]) \<or>
           (\<exists>y. P = [EndFlow (sharedApprovalFlowId w) (Inr ()),
                      AcceptRequest (sharedApprovalFlowId w) y]))"
    unfolding w0_def
    by (cases "sharedApprovalFlowId w = []") (simp_all add: endExistingApprovalFlow_exact)
  then obtain P where P: "trace w0 = trace w @ P"
     "if sharedApprovalFlowId w = [] then P = []
      else (\<exists>x. P = [EndFlow (sharedApprovalFlowId w) (Inl x)]) \<or>
           (\<exists>y. P = [EndFlow (sharedApprovalFlowId w) (Inr ()),
                      AcceptRequest (sharedApprovalFlowId w) y])" by blast
  obtain sr e1 where sf: "startFlow X (env w0) = (sr, e1)" by (cases "startFlow X (env w0)")
  have t: "trace w1 = trace w0 @ [StartFlow sr]"
    using assms sf
    by (auto simp: startApprovalFlow_def Let_def logged_def w0_def [symmetric] split: sum.splits)
  have r: "\<forall>fid. sr = Inr fid \<longrightarrow>
        r = Inr () \<and> h1 = h\<lparr>approvalFlowId := fid\<rparr> \<and> sharedApprovalFlowId w1 = fid"
    using assms sf
    by (auto simp: startApprovalFlow_def Let_def logged_def w0_def [symmetric] split: sum.splits)
  have l: "\<forall>e. sr = Inl e \<longrightarrow> r = Inl e \<and> h1 = h"
    using assms sf
    by (auto simp: startApprovalFlow_def Let_def logged_def w0_def [symmetric] split: sum.splits)
  from P t r l show ?thesis by (intro exI [of _ P] exI [of _ sr]) simp
qed

lemma onApproveOrReject_exact:
  assumes "onApproveOrReject X h w = (h1, w1)"
  shows "((\<not> shouldShowStatusPage h \<or> approvalFlowEnded h) \<and> h1 = h \<and> w1 = w) \<or>
         (shouldShowStatusPage h \<and> \<not> approvalFlowEnded h \<and>
          h1 = h\<lparr>approvalFlowEnded := True\<rparr> \<and>
          (\<exists>x. trace w1 = trace w @ [EndFlow (approvalFlowId h) x]) \<and>
          sharedApprovalFlowId w1 =
            (if sharedApprovalFlowId w = approvalFlowId h then [] else sharedApprovalFlowId w))"
  using assms
  by (auto simp: onApproveOrReject_def Let_def logged_def split: prod.splits if_splits)

lemma card_subset_singleton: "S \<subseteq> {x} \<Longrightarrow> card S \<le> 1"
  by (auto dest!: subset_singletonD)


text \<open>
  The segments of \<open>#startApprovalFlow\<close>, run one after the other with nothing in
  between, are \<open>#startApprovalFlow\<close> as \<open>submit\<close> and
  \<open>submitBatch\<close> call it; and \<open>submit\<close> and \<open>submitBatch\<close>
  enter it exactly when \<open>callsStartApprovalFlow\<close> says so.
\<close>

lemma submit_begin_enters:
  "submit_begin X (SmartTransactionHook X request) w =
     (if callsStartApprovalFlow X (Submit request)
      then startApprovalFlow_begin X (SmartTransactionHook X request) w
      else ((SmartTransactionHook X request, NotStarting), w))"
  by (simp add: submit_begin_def)

lemma submitBatch_begin_enters:
  "submitBatch_begin X (SmartTransactionHook X request) w =
     (if callsStartApprovalFlow X (SubmitBatch request)
      then startApprovalFlow_begin X (SmartTransactionHook X request) w
      else ((SmartTransactionHook X request, NotStarting), w))"
  by (simp add: submitBatch_begin_def)

lemma startApprovalFlow_segments:
  "(case_prod (startApprovalFlow_resume X) ^^ 4) (startApprovalFlow_begin X h w) =
     (case startApprovalFlow X h w of (r, h1, w1) \<Rightarrow> ((h1, NotStarting), w1))"
proof (cases "sharedApprovalFlowId w = []")
  case True
  obtain r e1 where s: "startFlow X (env w) = (r, e1)" by (cases "startFlow X (env w)")
  show ?thesis using True s
    by (cases r)
      (simp_all add: startApprovalFlow_begin_def startApprovalFlow_def logged_def
        eval_nat_numeral)
next
  case False
  obtain r1 e1 where e: "endFlow X (sharedApprovalFlowId w) (env w) = (r1, e1)"
    by (cases "endFlow X (sharedApprovalFlowId w) (env w)")
  show ?thesis
  proof (cases r1)
    case (Inl x)
    obtain r e2 where s: "startFlow X e1 = (r, e2)" by (cases "startFlow X e1")
    show ?thesis using False e Inl s
      by (cases r)
        (simp_all add: startApprovalFlow_begin_def startApprovalFlow_def
          endExistingApprovalFlow_def logged_def eval_nat_numeral)
  next
    case (Inr u)
    obtain r2 e2 where a: "acceptRequest X (sharedApprovalFlowId w) e1 = (r2, e2)"
      by (cases "acceptRequest X (sharedApprovalFlowId w) e1")
    obtain r e3 where s: "startFlow X e2 = (r, e3)" by (cases "startFlow X e2")
    show ?thesis using False e Inr a s
      by (cases r2; cases r)
        (simp_all add: startApprovalFlow_begin_def startApprovalFlow_def
          endExistingApprovalFlow_def logged_def eval_nat_numeral)
  qed
qed

lemma activeFlows_snoc: "activeFlows (xs @ [c]) = flowStep (activeFlows xs) c"
  by (simp add: activeFlows_def)

lemma controllerObeys_snoc:
  "controllerObeys (xs @ [c]) = (controllerObeys xs \<and> obeys (activeFlows xs) [c])"
  by (rule controllerObeys_append)

lemma obeys_EndFlow: "obeys A [EndFlow i x] \<Longrightarrow> flowStep A (EndFlow i x) = A - {i}"
  by (cases x) auto

lemma obeys_StartFlow:
  "obeys A [StartFlow r] \<Longrightarrow> flowStep A (StartFlow r) \<subseteq> A \<union> startedFlow (StartFlowCalled r)"
  by (cases r) auto

lemma startApprovalFlow_begin_flows:
  assumes b: "startApprovalFlow_begin X h w = ((h1, st), w1)"
    and ob: "controllerObeys (trace w1)"
    and A: "activeFlows (trace w) \<subseteq> {sharedApprovalFlowId w} - {[]}"
  shows "\<exists>c. trace w1 = trace w @ [c]" and "st \<noteq> NotStarting"
    and "activeFlows (trace w1) \<subseteq> startedFlow st"
proof -
  show "\<exists>c. trace w1 = trace w @ [c]" "st \<noteq> NotStarting"
    using b by (auto simp: startApprovalFlow_begin_def logged_def split: if_splits prod.splits)
  show "activeFlows (trace w1) \<subseteq> startedFlow st"
  proof (cases "sharedApprovalFlowId w = []")
    case True
    then obtain r where r: "trace w1 = trace w @ [StartFlow r]" "st = StartFlowCalled r"
      using b by (auto simp: startApprovalFlow_begin_def logged_def split: prod.splits)
    from A True have e: "activeFlows (trace w) = {}" by simp
    from ob have "obeys (activeFlows (trace w)) [StartFlow r]"
      unfolding r controllerObeys_snoc by simp
    from obeys_StartFlow [OF this] show ?thesis
      unfolding r activeFlows_snoc e by simp
  next
    case False
    then obtain r where r: "trace w1 = trace w @ [EndFlow (sharedApprovalFlowId w) r]"
      "st = EndFlowCalled (sharedApprovalFlowId w) r"
      using b by (auto simp: startApprovalFlow_begin_def logged_def split: prod.splits)
    from ob have "obeys (activeFlows (trace w)) [EndFlow (sharedApprovalFlowId w) r]"
      unfolding r controllerObeys_snoc by simp
    from obeys_EndFlow [OF this] A show ?thesis
      unfolding r activeFlows_snoc by auto
  qed
qed

lemma startApprovalFlow_resume_flows:
  assumes b: "startApprovalFlow_resume X (h, st) w = ((h1, st1), w1)"
    and ob: "controllerObeys (trace w1)"
    and A: "activeFlows (trace w) \<subseteq> startedFlow st"
    and st: "st \<noteq> NotStarting"
  shows "trace w1 = trace w \<or> (\<exists>c. trace w1 = trace w @ [c])"
    and "if st1 = NotStarting
         then activeFlows (trace w1) \<subseteq> {sharedApprovalFlowId w1} - {[]}
         else activeFlows (trace w1) \<subseteq> startedFlow st1"
proof -
  show "trace w1 = trace w \<or> (\<exists>c. trace w1 = trace w @ [c])"
    using b
    by (cases "(X, (h, st), w)" rule: startApprovalFlow_resume.cases)
      (auto simp: logged_def split: prod.splits)
  show "if st1 = NotStarting
         then activeFlows (trace w1) \<subseteq> {sharedApprovalFlowId w1} - {[]}
         else activeFlows (trace w1) \<subseteq> startedFlow st1"
  proof (cases st)
    case NotStarting
    then show ?thesis using st by simp
  next
    case (EndFlowCalled fid r)
    then show ?thesis using b A
      by (cases r) (auto simp: logged_def activeFlows_snoc split: prod.splits)
  next
    case (AcceptRequestCalled r)
    then show ?thesis using b A by (cases r) auto
  next
    case ExistingFlowEnded
    then obtain r where r: "trace w1 = trace w @ [StartFlow r]" "st1 = StartFlowCalled r"
      using b by (auto simp: logged_def split: prod.splits)
    from A ExistingFlowEnded have e: "activeFlows (trace w) = {}" by simp
    from ob have "obeys (activeFlows (trace w)) [StartFlow r]"
      unfolding r controllerObeys_snoc by simp
    from obeys_StartFlow [OF this] show ?thesis
      unfolding r activeFlows_snoc e by simp
  next
    case (StartFlowCalled r)
    then show ?thesis using b A by (cases r) auto
  qed
qed

lemma onApproveOrReject_flows:
  assumes b: "onApproveOrReject X h w = (h1, w1)"
    and ob: "controllerObeys (trace w1)"
  shows "trace w1 = trace w \<or> (\<exists>c. trace w1 = trace w @ [c])"
    and "activeFlows (trace w1) \<subseteq> activeFlows (trace w)"
    and "activeFlows (trace w) \<subseteq> {sharedApprovalFlowId w} - {[]} \<Longrightarrow>
         activeFlows (trace w1) \<subseteq> {sharedApprovalFlowId w1} - {[]}"
proof -
  from onApproveOrReject_exact [OF b] consider "w1 = w"
    | x where "trace w1 = trace w @ [EndFlow (approvalFlowId h) x]"
        "sharedApprovalFlowId w1 =
           (if sharedApprovalFlowId w = approvalFlowId h then [] else sharedApprovalFlowId w)"
    by blast
  then have "(trace w1 = trace w \<or> (\<exists>c. trace w1 = trace w @ [c])) \<and>
    activeFlows (trace w1) \<subseteq> activeFlows (trace w) \<and>
    (activeFlows (trace w) \<subseteq> {sharedApprovalFlowId w} - {[]} \<longrightarrow>
         activeFlows (trace w1) \<subseteq> {sharedApprovalFlowId w1} - {[]})"
  proof cases
    case 1
    then show ?thesis by simp
  next
    case 2
    from ob have "obeys (activeFlows (trace w)) [EndFlow (approvalFlowId h) x]"
      unfolding 2 controllerObeys_snoc by simp
    from obeys_EndFlow [OF this] show ?thesis
      unfolding 2 activeFlows_snoc by auto
  qed
  then show "trace w1 = trace w \<or> (\<exists>c. trace w1 = trace w @ [c])"
    and "activeFlows (trace w1) \<subseteq> activeFlows (trace w)"
    and "activeFlows (trace w) \<subseteq> {sharedApprovalFlowId w} - {[]} \<Longrightarrow>
         activeFlows (trace w1) \<subseteq> {sharedApprovalFlowId w1} - {[]}"
    by blast+
qed


text \<open>
  Every step keeps the active flows accounted for, as long as the approval controller
  obeys and no call of \<open>#startApprovalFlow\<close> begins while another is under way.
\<close>

lemma noneStarting_iff:
  "noneStarting s \<longleftrightarrow> (\<forall>j<length (hooks s). snd (hooks s ! j) = NotStarting)"
  by (simp add: noneStarting_def list_all_length)

lemma flowsAccountedFor_idle:
  assumes "\<forall>j<length (hooks s). snd (hooks s ! j) = NotStarting"
    and "activeFlows (trace (sys_world s)) \<subseteq> {sharedApprovalFlowId (sys_world s)} - {[]}"
  shows "flowsAccountedFor s"
  using assms by (simp add: flowsAccountedFor_def noneStarting_iff)

lemma flowsAccountedFor_starting:
  assumes "i < length (hooks s)" and "snd (hooks s ! i) \<noteq> NotStarting"
    and "\<forall>j<length (hooks s). j \<noteq> i \<longrightarrow> snd (hooks s ! j) = NotStarting"
    and "activeFlows (trace (sys_world s)) \<subseteq> startedFlow (snd (hooks s ! i))"
  shows "flowsAccountedFor s"
proof -
  have "\<not> noneStarting s" using assms(1,2) by (auto simp: noneStarting_iff)
  then show ?thesis using assms(1,3,4) by (auto simp: flowsAccountedFor_def)
qed

lemma flowsAccountedFor_cases:
  assumes "flowsAccountedFor s"
  obtains (idle) "\<forall>j<length (hooks s). snd (hooks s ! j) = NotStarting"
      "activeFlows (trace (sys_world s)) \<subseteq> {sharedApprovalFlowId (sys_world s)} - {[]}"
    | (starting) i where "i < length (hooks s)" "snd (hooks s ! i) \<noteq> NotStarting"
      "\<forall>j<length (hooks s). j \<noteq> i \<longrightarrow> snd (hooks s ! j) = NotStarting"
      "activeFlows (trace (sys_world s)) \<subseteq> startedFlow (snd (hooks s ! i))"
proof (cases "noneStarting s")
  case True
  then show ?thesis using assms idle by (simp add: flowsAccountedFor_def noneStarting_iff)
next
  case False
  then obtain i where i: "i < length (hooks s)"
    "\<forall>j<length (hooks s). j \<noteq> i \<longrightarrow> snd (hooks s ! j) = NotStarting"
    "activeFlows (trace (sys_world s)) \<subseteq> startedFlow (snd (hooks s ! i))"
    using assms by (auto simp: flowsAccountedFor_def)
  from False obtain k where k: "k < length (hooks s)" "snd (hooks s ! k) \<noteq> NotStarting"
    by (auto simp: noneStarting_iff)
  with i(2) have "k = i" by blast
  with k i show ?thesis using starting by blast
qed

lemma enter_flows:
  assumes acc: "flowsAccountedFor s"
    and ex: "st \<noteq> NotStarting \<longrightarrow> noneStarting s"
    and ob: "controllerObeys (trace w1)"
    and b: "(st = NotStarting \<and> w1 = sys_world s) \<or>
            startApprovalFlow_begin X h (sys_world s) = ((h1, st), w1)"
  shows "flowsAccountedFor \<lparr> hooks = hooks s @ [(h1, st)], sys_world = w1 \<rparr>"
    and "trace w1 = trace (sys_world s) \<or> (\<exists>c. trace w1 = trace (sys_world s) @ [c])"
proof -
  let ?s = "\<lparr> hooks = hooks s @ [(h1, st)], sys_world = w1 \<rparr>"
  have "flowsAccountedFor ?s \<and>
        (trace w1 = trace (sys_world s) \<or> (\<exists>c. trace w1 = trace (sys_world s) @ [c]))"
  proof (cases "st = NotStarting \<and> w1 = sys_world s")
    case True
    from acc have "flowsAccountedFor ?s"
    proof (cases rule: flowsAccountedFor_cases)
      case idle
      show ?thesis
      proof (rule flowsAccountedFor_idle)
        show "\<forall>j<length (hooks ?s). snd (hooks ?s ! j) = NotStarting"
          using idle(1) True by (auto simp: nth_append)
        show "activeFlows (trace (sys_world ?s))
                \<subseteq> {sharedApprovalFlowId (sys_world ?s)} - {[]}"
          using idle(2) True by simp
      qed
    next
      case (starting i)
      show ?thesis
      proof (rule flowsAccountedFor_starting [of i])
        show "i < length (hooks ?s)" using starting(1) by simp
        show "snd (hooks ?s ! i) \<noteq> NotStarting" using starting(1,2) by (simp add: nth_append)
        show "\<forall>j<length (hooks ?s). j \<noteq> i \<longrightarrow> snd (hooks ?s ! j) = NotStarting"
          using starting(3) True by (auto simp: nth_append)
        show "activeFlows (trace (sys_world ?s)) \<subseteq> startedFlow (snd (hooks ?s ! i))"
          using starting(1,4) True by (simp add: nth_append)
      qed
    qed
    with True show ?thesis by simp
  next
    case False
    with b have bb: "startApprovalFlow_begin X h (sys_world s) = ((h1, st), w1)" by blast
    have "st \<noteq> NotStarting"
      using bb by (auto simp: startApprovalFlow_begin_def logged_def split: if_splits prod.splits)
    with ex have "noneStarting s" by simp
    with acc have all: "\<forall>j<length (hooks s). snd (hooks s ! j) = NotStarting"
      and A: "activeFlows (trace (sys_world s))
               \<subseteq> {sharedApprovalFlowId (sys_world s)} - {[]}"
      by (simp_all add: flowsAccountedFor_def noneStarting_iff)
    note f = startApprovalFlow_begin_flows [OF bb ob A]
    have "flowsAccountedFor ?s"
    proof (rule flowsAccountedFor_starting [of "length (hooks s)"])
      show "length (hooks s) < length (hooks ?s)" by simp
      show "snd (hooks ?s ! length (hooks s)) \<noteq> NotStarting" using f(2) by simp
      show "\<forall>j<length (hooks ?s). j \<noteq> length (hooks s) \<longrightarrow> snd (hooks ?s ! j) = NotStarting"
        using all by (auto simp: nth_append)
      show "activeFlows (trace (sys_world ?s))
              \<subseteq> startedFlow (snd (hooks ?s ! length (hooks s)))"
        using f(3) by simp
    qed
    with f(1) show ?thesis by blast
  qed
  then show "flowsAccountedFor ?s"
    and "trace w1 = trace (sys_world s) \<or> (\<exists>c. trace w1 = trace (sys_world s) @ [c])"
    by blast+
qed

lemma resume_flows:
  assumes acc: "flowsAccountedFor s"
    and i: "i < length (hooks s)"
    and b: "startApprovalFlow_resume X (hooks s ! i) (sys_world s) = ((h1, st1), w1)"
    and ob: "controllerObeys (trace w1)"
  shows "flowsAccountedFor \<lparr> hooks = (hooks s)[i := (h1, st1)], sys_world = w1 \<rparr>"
    and "trace w1 = trace (sys_world s) \<or> (\<exists>c. trace w1 = trace (sys_world s) @ [c])"
proof -
  let ?s = "\<lparr> hooks = (hooks s)[i := (h1, st1)], sys_world = w1 \<rparr>"
  obtain h st where p: "hooks s ! i = (h, st)" by (cases "hooks s ! i")
  have "flowsAccountedFor ?s \<and>
        (trace w1 = trace (sys_world s) \<or> (\<exists>c. trace w1 = trace (sys_world s) @ [c]))"
  proof (cases "st = NotStarting")
    case True
    with b p have "(h1, st1) = hooks s ! i" "w1 = sys_world s" by simp_all
    then have "?s = s" by simp
    with acc \<open>w1 = sys_world s\<close> show ?thesis by simp
  next
    case False
    from acc have "(\<forall>j<length (hooks s). j \<noteq> i \<longrightarrow> snd (hooks s ! j) = NotStarting) \<and>
      activeFlows (trace (sys_world s)) \<subseteq> startedFlow st"
    proof (cases rule: flowsAccountedFor_cases)
      case idle
      with i p False show ?thesis by auto
    next
      case (starting k)
      have "k = i" using starting(3) i p False by auto
      with starting p show ?thesis by auto
    qed
    then have o: "\<forall>j<length (hooks s). j \<noteq> i \<longrightarrow> snd (hooks s ! j) = NotStarting"
      and A: "activeFlows (trace (sys_world s)) \<subseteq> startedFlow st" by blast+
    from b p have bb: "startApprovalFlow_resume X (h, st) (sys_world s) = ((h1, st1), w1)"
      by simp
    note f = startApprovalFlow_resume_flows [OF bb ob A False]
    have "flowsAccountedFor ?s"
    proof (cases "st1 = NotStarting")
      case True
      show ?thesis
      proof (rule flowsAccountedFor_idle)
        show "\<forall>j<length (hooks ?s). snd (hooks ?s ! j) = NotStarting"
          using o True i by (auto simp: nth_list_update)
        show "activeFlows (trace (sys_world ?s))
                \<subseteq> {sharedApprovalFlowId (sys_world ?s)} - {[]}"
          using f(2) True by simp
      qed
    next
      case False
      show ?thesis
      proof (rule flowsAccountedFor_starting [of i])
        show "i < length (hooks ?s)" using i by simp
        show "snd (hooks ?s ! i) \<noteq> NotStarting" using i False by simp
        show "\<forall>j<length (hooks ?s). j \<noteq> i \<longrightarrow> snd (hooks ?s ! j) = NotStarting"
          using o i by (auto simp: nth_list_update)
        show "activeFlows (trace (sys_world ?s)) \<subseteq> startedFlow (snd (hooks ?s ! i))"
          using f(2) False i by simp
      qed
    qed
    with f(1) show ?thesis by blast
  qed
  then show "flowsAccountedFor ?s"
    and "trace w1 = trace (sys_world s) \<or> (\<exists>c. trace w1 = trace (sys_world s) @ [c])"
    by blast+
qed

lemma approveOrReject_flows:
  assumes acc: "flowsAccountedFor s"
    and i: "i < length (hooks s)" "snd (hooks s ! i) = NotStarting"
    and b: "onApproveOrReject X (fst (hooks s ! i)) (sys_world s) = (h1, w1)"
    and ob: "controllerObeys (trace w1)"
  shows "flowsAccountedFor \<lparr> hooks = (hooks s)[i := (h1, NotStarting)], sys_world = w1 \<rparr>"
    and "trace w1 = trace (sys_world s) \<or> (\<exists>c. trace w1 = trace (sys_world s) @ [c])"
proof -
  let ?s = "\<lparr> hooks = (hooks s)[i := (h1, NotStarting)], sys_world = w1 \<rparr>"
  note f = onApproveOrReject_flows [OF b ob]
  show "trace w1 = trace (sys_world s) \<or> (\<exists>c. trace w1 = trace (sys_world s) @ [c])"
    by (rule f(1))
  have same: "\<forall>j<length (hooks s). snd (hooks ?s ! j) = snd (hooks s ! j)"
    using i by (auto simp: nth_list_update)
  from acc show "flowsAccountedFor ?s"
  proof (cases rule: flowsAccountedFor_cases)
    case idle
    show ?thesis
    proof (rule flowsAccountedFor_idle)
      show "\<forall>j<length (hooks ?s). snd (hooks ?s ! j) = NotStarting"
        using idle(1) same by simp
      show "activeFlows (trace (sys_world ?s)) \<subseteq> {sharedApprovalFlowId (sys_world ?s)} - {[]}"
        using f(3) [OF idle(2)] by simp
    qed
  next
    case (starting k)
    show ?thesis
    proof (rule flowsAccountedFor_starting [of k])
      show "k < length (hooks ?s)" using starting(1) by simp
      show "snd (hooks ?s ! k) \<noteq> NotStarting" using starting(1,2) same by simp
      show "\<forall>j<length (hooks ?s). j \<noteq> k \<longrightarrow> snd (hooks ?s ! j) = NotStarting"
        using starting(3) same by simp
      show "activeFlows (trace (sys_world ?s)) \<subseteq> startedFlow (snd (hooks ?s ! k))"
        using starting(1,4) f(2) same by auto
    qed
  qed
qed

lemma step_flows:
  assumes acc: "flowsAccountedFor s"
    and ex: "callsStartApprovalFlow X op \<longrightarrow> noneStarting s"
    and ob: "controllerObeys (trace (sys_world (step X s op)))"
  shows "flowsAccountedFor (step X s op)"
    and "trace (sys_world (step X s op)) = trace (sys_world s) \<or>
         (\<exists>c. trace (sys_world (step X s op)) = trace (sys_world s) @ [c])"
proof -
  have "flowsAccountedFor (step X s op) \<and>
    (trace (sys_world (step X s op)) = trace (sys_world s) \<or>
     (\<exists>c. trace (sys_world (step X s op)) = trace (sys_world s) @ [c]))"
  proof (cases op)
    case (Submit request)
    let ?h = "SmartTransactionHook X request"
    obtain h1 st w1 where b: "submit_begin X ?h (sys_world s) = ((h1, st), w1)"
      by (metis prod.exhaust)
    then have st: "step X s op = \<lparr> hooks = hooks s @ [(h1, st)], sys_world = w1 \<rparr>"
      using Submit by simp
    have 1: "st \<noteq> NotStarting \<longrightarrow> noneStarting s"
      using b ex Submit by (auto simp: submit_begin_def split: if_splits)
    have 2: "(st = NotStarting \<and> w1 = sys_world s) \<or>
            startApprovalFlow_begin X ?h (sys_world s) = ((h1, st), w1)"
      using b by (auto simp: submit_begin_def split: if_splits)
    from ob have 3: "controllerObeys (trace w1)" unfolding st by simp
    from enter_flows [OF acc 1 3 2] show ?thesis unfolding st by simp
  next
    case (SubmitBatch request)
    let ?h = "SmartTransactionHook X request"
    obtain h1 st w1 where b: "submitBatch_begin X ?h (sys_world s) = ((h1, st), w1)"
      by (metis prod.exhaust)
    then have st: "step X s op = \<lparr> hooks = hooks s @ [(h1, st)], sys_world = w1 \<rparr>"
      using SubmitBatch by simp
    have 1: "st \<noteq> NotStarting \<longrightarrow> noneStarting s"
      using b ex SubmitBatch by (auto simp: submitBatch_begin_def split: if_splits)
    have 2: "(st = NotStarting \<and> w1 = sys_world s) \<or>
            startApprovalFlow_begin X ?h (sys_world s) = ((h1, st), w1)"
      using b by (auto simp: submitBatch_begin_def split: if_splits)
    from ob have 3: "controllerObeys (trace w1)" unfolding st by simp
    from enter_flows [OF acc 1 3 2] show ?thesis unfolding st by simp
  next
    case (Resume i)
    show ?thesis
    proof (cases "i < length (hooks s)")
      case False
      then have "step X s op = s" using Resume by simp
      then show ?thesis using acc by simp
    next
      case True
      obtain h1 st1 w1 where
        b: "startApprovalFlow_resume X (hooks s ! i) (sys_world s) = ((h1, st1), w1)"
        by (metis prod.exhaust)
      then have st: "step X s op = \<lparr> hooks = (hooks s)[i := (h1, st1)], sys_world = w1 \<rparr>"
        using Resume True by simp
      from ob have 3: "controllerObeys (trace w1)" unfolding st by simp
      from resume_flows [OF acc True b 3] show ?thesis unfolding st by simp
    qed
  next
    case (ApproveOrReject i)
    show ?thesis
    proof (cases "i < length (hooks s) \<and> snd (hooks s ! i) = NotStarting")
      case False
      then have "step X s op = s" using ApproveOrReject by auto
      then show ?thesis using acc by simp
    next
      case True
      obtain h1 w1 where
        b: "onApproveOrReject X (fst (hooks s ! i)) (sys_world s) = (h1, w1)"
        by (metis prod.exhaust)
      then have st: "step X s op
          = \<lparr> hooks = (hooks s)[i := (h1, NotStarting)], sys_world = w1 \<rparr>"
        using ApproveOrReject True by simp
      from ob have 3: "controllerObeys (trace w1)" unfolding st by simp
      from True have i: "i < length (hooks s)" "snd (hooks s ! i) = NotStarting" by simp_all
      from approveOrReject_flows [OF acc i b 3] show ?thesis unfolding st by simp
    qed
  qed
  then show "flowsAccountedFor (step X s op)"
    and "trace (sys_world (step X s op)) = trace (sys_world s) \<or>
         (\<exists>c. trace (sys_world (step X s op)) = trace (sys_world s) @ [c])"
    by blast+
qed

lemma flowsAccountedFor_card:
  assumes "flowsAccountedFor s"
  shows "card (activeFlows (trace (sys_world s))) \<le> 1"
proof -
  have sf: "\<And>st. startedFlow st \<subseteq> {case st of StartFlowCalled (Inr fid) \<Rightarrow> fid | _ \<Rightarrow> []}"
    by (auto split: flow_stage.splits sum.splits)
  from assms show ?thesis
  proof (cases rule: flowsAccountedFor_cases)
    case idle
    then have "activeFlows (trace (sys_world s)) \<subseteq> {sharedApprovalFlowId (sys_world s)}"
      by auto
    then show ?thesis by (rule card_subset_singleton)
  next
    case (starting i)
    with sf [of "snd (hooks s ! i)"] have "activeFlows (trace (sys_world s))
       \<subseteq> {case snd (hooks s ! i) of StartFlowCalled (Inr fid) \<Rightarrow> fid | _ \<Rightarrow> []}"
      by blast
    then show ?thesis by (rule card_subset_singleton)
  qed
qed

lemma noOverlap_snoc:
  "noOverlap X s (ops @ [op]) =
     (noOverlap X s ops \<and> (callsStartApprovalFlow X op \<longrightarrow> noneStarting (run X ops s)))"
  by (induction ops arbitrary: s) (simp_all add: run_def)

lemma run_snoc: "run X (ops @ [op]) s = step X (run X ops s) op"
  by (simp add: run_def)

lemma run_flows:
  "noOverlap X (initialSystem e) ops \<and>
   controllerObeys (trace (sys_world (run X ops (initialSystem e)))) \<longrightarrow>
     flowsAccountedFor (run X ops (initialSystem e)) \<and>
     (\<forall>n. card (activeFlows (take n (trace (sys_world (run X ops (initialSystem e)))))) \<le> 1)"
proof (induction ops rule: rev_induct)
  case Nil
  then show ?case
    by (simp add: run_def initialSystem_def activeFlows_def flowsAccountedFor_def
        noneStarting_def)
next
  case (snoc op ops)
  let ?s = "run X ops (initialSystem e)"
  let ?t = "step X ?s op"
  show ?case
  proof
    assume a: "noOverlap X (initialSystem e) (ops @ [op]) \<and>
      controllerObeys (trace (sys_world (run X (ops @ [op]) (initialSystem e))))"
    then have no: "noOverlap X (initialSystem e) ops"
      and ex: "callsStartApprovalFlow X op \<longrightarrow> noneStarting ?s"
      and ob: "controllerObeys (trace (sys_world ?t))"
      by (simp_all add: noOverlap_snoc run_snoc)
    have tr: "trace (sys_world ?t) = trace (sys_world ?s) \<or>
         (\<exists>c. trace (sys_world ?t) = trace (sys_world ?s) @ [c])"
    proof (cases op)
      case (Submit request)
      then show ?thesis
        by (auto simp: submit_begin_def startApprovalFlow_begin_def logged_def
            split: prod.splits if_splits)
    next
      case (SubmitBatch request)
      then show ?thesis
        by (auto simp: submitBatch_begin_def startApprovalFlow_begin_def logged_def
            split: prod.splits if_splits)
    next
      case (Resume i)
      show ?thesis
      proof (cases "i < length (hooks ?s)")
        case False
        then show ?thesis using Resume by simp
      next
        case True
        obtain h st where p: "hooks ?s ! i = (h, st)" by (cases "hooks ?s ! i")
        show ?thesis using Resume True p
          by (cases "(X, (h, st), sys_world ?s)" rule: startApprovalFlow_resume.cases)
            (auto simp: logged_def split: prod.splits)
      qed
    next
      case (ApproveOrReject i)
      then show ?thesis
        by (auto simp: onApproveOrReject_def Let_def logged_def split: prod.splits)
    qed
    then have "controllerObeys (trace (sys_world ?s))"
      using ob by (auto simp: controllerObeys_snoc)
    with no snoc.IH have acc: "flowsAccountedFor ?s"
      and c: "\<forall>n. card (activeFlows (take n (trace (sys_world ?s)))) \<le> 1" by blast+
    from step_flows(1) [OF acc ex ob] have acc': "flowsAccountedFor ?t" .
    have "\<forall>n. card (activeFlows (take n (trace (sys_world ?t)))) \<le> 1"
    proof
      fix n
      from tr show "card (activeFlows (take n (trace (sys_world ?t)))) \<le> 1"
      proof
        assume "trace (sys_world ?t) = trace (sys_world ?s)"
        then show ?thesis using c by simp
      next
        assume "\<exists>c. trace (sys_world ?t) = trace (sys_world ?s) @ [c]"
        then obtain x where x: "trace (sys_world ?t) = trace (sys_world ?s) @ [x]" ..
        show ?thesis
        proof (cases "n \<le> length (trace (sys_world ?s))")
          case True
          then show ?thesis using c unfolding x by simp
        next
          case False
          then have "take n (trace (sys_world ?t)) = trace (sys_world ?t)"
            unfolding x by simp
          then show ?thesis using flowsAccountedFor_card [OF acc'] by simp
        qed
      qed
    qed
    with acc' show "flowsAccountedFor (run X (ops @ [op]) (initialSystem e)) \<and>
      (\<forall>n. card (activeFlows (take n
             (trace (sys_world (run X (ops @ [op]) (initialSystem e)))))) \<le> 1)"
      by (simp add: run_snoc)
  qed
qed


text \<open>
  Two flows are active at once when two calls of \<open>#startApprovalFlow\<close> overlap:
  two instances submitted in the same turn both find the shared identifier empty and
  both call \<open>startFlow\<close>, and nothing ends the first flow. The same happens,
  with no overlap, when the approval controller refuses to end a flow: the error is
  caught and logged and the next flow is started all the same.
\<close>

theorem two_approval_flows_active:
  "controllerObeys (trace (sys_world (run exampleExt overlappingOps (initialSystem 0)))) \<and>
   trace (sys_world (run exampleExt overlappingOps (initialSystem 0))) =
     [StartFlow (Inr ''f''), StartFlow (Inr ''f1'')] \<and>
   activeFlows (trace (sys_world (run exampleExt overlappingOps (initialSystem 0)))) =
     {''f'', ''f1''} \<and>
   card (activeFlows (trace (sys_world (run exampleExt overlappingOps (initialSystem 0))))) = 2 \<and>
   noOverlap refusingExt (initialSystem 0) exampleOps \<and>
   activeFlows (trace (sys_world (run refusingExt exampleOps (initialSystem 0)))) =
     {''f'', ''f1''} \<and>
   card (activeFlows (trace (sys_world (run refusingExt exampleOps (initialSystem 0))))) = 2"
proof -
  have t: "trace (sys_world (run exampleExt overlappingOps (initialSystem 0))) =
     [StartFlow (Inr ''f''), StartFlow (Inr ''f1'')]"
    by (simp add: run_def overlappingOps_def initialSystem_def submit_begin_def
        startApprovalFlow_begin_def logged_def SmartTransactionHook_def
        isUnsupportedTransactionTypeForSmartTransaction_def example_defs)
  have r: "noOverlap refusingExt (initialSystem 0) exampleOps"
    by (simp add: refusingExt_def exampleOps_def initialSystem_def submit_begin_def
        submitBatch_begin_def startApprovalFlow_begin_def onApproveOrReject_def Let_def
        logged_def SmartTransactionHook_def noneStarting_def
        isUnsupportedTransactionTypeForSmartTransaction_def example_defs)
  have a: "activeFlows (trace (sys_world (run refusingExt exampleOps (initialSystem 0)))) =
     {''f'', ''f1''}"
    by (simp add: run_def refusingExt_def exampleOps_def initialSystem_def submit_begin_def
        submitBatch_begin_def startApprovalFlow_begin_def onApproveOrReject_def Let_def
        logged_def SmartTransactionHook_def activeFlows_def
        isUnsupportedTransactionTypeForSmartTransaction_def example_defs insert_commute)
  have c: "card {''f'', ''f1''} = 2" by simp
  show ?thesis unfolding t a c
    by (simp add: controllerObeys_def activeFlows_def insert_commute r)
qed

text \<open>
  C3. At most one approval flow is active at a time across all instances, as long as no
  two calls of \<open>#startApprovalFlow\<close> overlap and the approval controller gives
  non-empty flow identifiers and does not refuse to end an active flow: then, in the log
  of any sequence of steps of any number of instances, from the first instance on, no
  more than one flow is started and not ended at any point.
  The mechanism, whatever the controller does: \<open>#startApprovalFlow\<close> calls
  \<open>startFlow\<close> last, after the calls about the shared flow when there is one:
  \<open>endFlow\<close>, then \<open>acceptRequest\<close> when that succeeded (an error of
  either is swallowed); when both succeed the shared identifier is cleared. The
  identifier \<open>startFlow\<close> returns is stored in the instance and in the static
  field. \<open>#onApproveOrReject\<close> sets \<open>#approvalFlowEnded\<close>, calls
  \<open>endFlow\<close> on the instance's flow and clears the shared identifier only when it
  is the instance's; it does nothing when the status page is not shown or the flag is
  set, so a second call does nothing.
\<close>

theorem one_approval_flow_at_a_time:
  "(noOverlap X (initialSystem e) ops \<and>
    controllerObeys (trace (sys_world (run X ops (initialSystem e)))) \<longrightarrow>
      (\<forall>n. card (activeFlows (take n (trace (sys_world (run X ops (initialSystem e)))))) \<le> 1)) \<and>
   (\<exists>P sr. trace (snd (snd (startApprovalFlow X h w))) = trace w @ P @ [StartFlow sr] \<and>
      (if sharedApprovalFlowId w = [] then P = []
       else (\<exists>x. P = [EndFlow (sharedApprovalFlowId w) (Inl x)]) \<or>
            (\<exists>y. P = [EndFlow (sharedApprovalFlowId w) (Inr ()),
                       AcceptRequest (sharedApprovalFlowId w) y])) \<and>
      (\<forall>fid. sr = Inr fid \<longrightarrow>
         approvalFlowId (fst (snd (startApprovalFlow X h w))) = fid \<and>
         sharedApprovalFlowId (snd (snd (startApprovalFlow X h w))) = fid)) \<and>
   (sharedApprovalFlowId w \<noteq> [] \<and>
    endFlow X (sharedApprovalFlowId w) (env w) = (Inr (), e1) \<and>
    acceptRequest X (sharedApprovalFlowId w) e1 = (Inr (), e2) \<longrightarrow>
      endExistingApprovalFlow X (sharedApprovalFlowId w) w =
        w\<lparr>sharedApprovalFlowId := [], env := e2,
          trace := trace w @ [EndFlow (sharedApprovalFlowId w) (Inr ()),
                              AcceptRequest (sharedApprovalFlowId w) (Inr ())]\<rparr>) \<and>
   (shouldShowStatusPage h \<and> \<not> approvalFlowEnded h \<longrightarrow>
      fst (onApproveOrReject X h w) = h\<lparr>approvalFlowEnded := True\<rparr> \<and>
      (\<exists>x. trace (snd (onApproveOrReject X h w)) = trace w @ [EndFlow (approvalFlowId h) x]) \<and>
      sharedApprovalFlowId (snd (onApproveOrReject X h w)) =
        (if sharedApprovalFlowId w = approvalFlowId h then [] else sharedApprovalFlowId w)) \<and>
   (\<not> shouldShowStatusPage h \<or> approvalFlowEnded h \<longrightarrow> onApproveOrReject X h w = (h, w)) \<and>
   onApproveOrReject X (fst (onApproveOrReject X h w)) w' = (fst (onApproveOrReject X h w), w')"
proof (intro conjI impI)
  assume "noOverlap X (initialSystem e) ops \<and>
    controllerObeys (trace (sys_world (run X ops (initialSystem e))))"
  then show "\<forall>n. card (activeFlows (take n (trace (sys_world (run X ops (initialSystem e)))))) \<le> 1"
    using run_flows [of X e ops] by blast
next
  obtain r h1 w1 where st: "startApprovalFlow X h w = (r, h1, w1)" by (metis prod_cases3)
  from startApprovalFlow_exact [OF st] obtain P sr where
    all: "trace w1 = trace w @ P @ [StartFlow sr] \<and>
     (if sharedApprovalFlowId w = [] then P = []
      else (\<exists>x. P = [EndFlow (sharedApprovalFlowId w) (Inl x)]) \<or>
           (\<exists>y. P = [EndFlow (sharedApprovalFlowId w) (Inr ()),
                      AcceptRequest (sharedApprovalFlowId w) y])) \<and>
     (\<forall>fid. sr = Inr fid \<longrightarrow>
        r = Inr () \<and> h1 = h\<lparr>approvalFlowId := fid\<rparr> \<and> sharedApprovalFlowId w1 = fid) \<and>
     (\<forall>e. sr = Inl e \<longrightarrow> r = Inl e \<and> h1 = h)"
    by (elim exE)
  from all have 1: "trace w1 = trace w @ P @ [StartFlow sr]" by (rule conjunct1)
  from all have 2: "if sharedApprovalFlowId w = [] then P = []
      else (\<exists>x. P = [EndFlow (sharedApprovalFlowId w) (Inl x)]) \<or>
           (\<exists>y. P = [EndFlow (sharedApprovalFlowId w) (Inr ()),
                      AcceptRequest (sharedApprovalFlowId w) y])"
    by (rule conjunct2 [THEN conjunct1])
  from all have "\<forall>fid. sr = Inr fid \<longrightarrow>
        r = Inr () \<and> h1 = h\<lparr>approvalFlowId := fid\<rparr> \<and> sharedApprovalFlowId w1 = fid"
    by (rule conjunct2 [THEN conjunct2, THEN conjunct1])
  then have 3: "\<forall>fid. sr = Inr fid \<longrightarrow> approvalFlowId h1 = fid \<and> sharedApprovalFlowId w1 = fid"
    by simp
  show "\<exists>P sr. trace (snd (snd (startApprovalFlow X h w))) = trace w @ P @ [StartFlow sr] \<and>
      (if sharedApprovalFlowId w = [] then P = []
       else (\<exists>x. P = [EndFlow (sharedApprovalFlowId w) (Inl x)]) \<or>
            (\<exists>y. P = [EndFlow (sharedApprovalFlowId w) (Inr ()),
                       AcceptRequest (sharedApprovalFlowId w) y])) \<and>
      (\<forall>fid. sr = Inr fid \<longrightarrow>
         approvalFlowId (fst (snd (startApprovalFlow X h w))) = fid \<and>
         sharedApprovalFlowId (snd (snd (startApprovalFlow X h w))) = fid)"
    unfolding st fst_conv snd_conv
    using 1 2 3 by (intro exI [of _ P] exI [of _ sr] conjI)
next
  assume "sharedApprovalFlowId w \<noteq> [] \<and>
    endFlow X (sharedApprovalFlowId w) (env w) = (Inr (), e1) \<and>
    acceptRequest X (sharedApprovalFlowId w) e1 = (Inr (), e2)"
  then show "endExistingApprovalFlow X (sharedApprovalFlowId w) w =
        w\<lparr>sharedApprovalFlowId := [], env := e2,
          trace := trace w @ [EndFlow (sharedApprovalFlowId w) (Inr ()),
                              AcceptRequest (sharedApprovalFlowId w) (Inr ())]\<rparr>"
    by (simp add: endExistingApprovalFlow_def logged_def)
next
  assume a: "shouldShowStatusPage h \<and> \<not> approvalFlowEnded h"
  obtain h1 w1 where o: "onApproveOrReject X h w = (h1, w1)"
    by (cases "onApproveOrReject X h w")
  from onApproveOrReject_exact [OF o] a
  show "fst (onApproveOrReject X h w) = h\<lparr>approvalFlowEnded := True\<rparr>"
    "\<exists>x. trace (snd (onApproveOrReject X h w)) = trace w @ [EndFlow (approvalFlowId h) x]"
    "sharedApprovalFlowId (snd (onApproveOrReject X h w)) =
        (if sharedApprovalFlowId w = approvalFlowId h then [] else sharedApprovalFlowId w)"
    unfolding o fst_conv snd_conv by blast+
next
  assume "\<not> shouldShowStatusPage h \<or> approvalFlowEnded h"
  then show "onApproveOrReject X h w = (h, w)"
    by (auto simp: onApproveOrReject_def)
next
  have "\<not> shouldShowStatusPage (fst (onApproveOrReject X h w)) \<or>
        approvalFlowEnded (fst (onApproveOrReject X h w))"
    by (simp add: onApproveOrReject_def Let_def)
  then show "onApproveOrReject X (fst (onApproveOrReject X h w)) w'
               = (fst (onApproveOrReject X h w), w')"
    by (auto simp: onApproveOrReject_def)
qed


theorem one_approval_flow_at_a_time_witness:
  "noOverlap exampleExt (initialSystem 0) exampleOps \<and>
   controllerObeys (trace (sys_world (run exampleExt exampleOps (initialSystem 0)))) \<and>
   (\<forall>n. card (activeFlows (take n
           (trace (sys_world (run exampleExt exampleOps (initialSystem 0)))))) \<le> 1) \<and>
   sharedApprovalFlowId (exampleWorld\<lparr>sharedApprovalFlowId := ''f'', env := 1\<rparr>) \<noteq> [] \<and>
   endExistingApprovalFlow exampleExt ''f''
       (exampleWorld\<lparr>sharedApprovalFlowId := ''f'', env := 1\<rparr>) =
     \<lparr> sharedApprovalFlowId = [], env = 1,
       trace = [EndFlow ''f'' (Inr ()), AcceptRequest ''f'' (Inr ())] \<rparr> \<and>
   shouldShowStatusPage
     (SmartTransactionHook exampleExt (exampleRequest (otherType ''swap'') None)) \<and>
   \<not> approvalFlowEnded
     (SmartTransactionHook exampleExt (exampleRequest (otherType ''swap'') None)) \<and>
   fst (onApproveOrReject exampleExt
          (SmartTransactionHook exampleExt (exampleRequest (otherType ''swap'') None))
          exampleWorld) =
     (SmartTransactionHook exampleExt (exampleRequest (otherType ''swap'') None))
       \<lparr>approvalFlowEnded := True\<rparr>"
proof -
  let ?h = "SmartTransactionHook exampleExt (exampleRequest (otherType ''swap'') None)"
  let ?w = "exampleWorld\<lparr>sharedApprovalFlowId := ''f'', env := 1\<rparr>"
  have no: "noOverlap exampleExt (initialSystem 0) exampleOps"
    by (simp add: exampleOps_def initialSystem_def submit_begin_def submitBatch_begin_def
        startApprovalFlow_begin_def onApproveOrReject_def Let_def logged_def
        SmartTransactionHook_def noneStarting_def
        isUnsupportedTransactionTypeForSmartTransaction_def example_defs)
  have ob: "controllerObeys (trace (sys_world (run exampleExt exampleOps (initialSystem 0))))"
    by (simp add: run_def exampleOps_def initialSystem_def controllerObeys_def
        submit_begin_def submitBatch_begin_def startApprovalFlow_begin_def
        onApproveOrReject_def Let_def logged_def SmartTransactionHook_def
        isUnsupportedTransactionTypeForSmartTransaction_def example_defs)
  have w: "sharedApprovalFlowId ?w \<noteq> []"
    "endFlow exampleExt (sharedApprovalFlowId ?w) (env ?w) = (Inr (), 1)"
    "acceptRequest exampleExt (sharedApprovalFlowId ?w) 1 = (Inr (), 1)"
    by (simp_all add: exampleExt_simps exampleWorld_def)
  have h: "shouldShowStatusPage ?h" "\<not> approvalFlowEnded ?h"
    by (simp_all add: hook_defs example_defs)
  have 1: "\<forall>n. card (activeFlows (take n
           (trace (sys_world (run exampleExt exampleOps (initialSystem 0)))))) \<le> 1"
    using one_approval_flow_at_a_time [of exampleExt 0 exampleOps] no ob by blast
  have 2: "endExistingApprovalFlow exampleExt (sharedApprovalFlowId ?w) ?w =
        ?w\<lparr>sharedApprovalFlowId := [], env := 1,
          trace := trace ?w @ [EndFlow (sharedApprovalFlowId ?w) (Inr ()),
                              AcceptRequest (sharedApprovalFlowId ?w) (Inr ())]\<rparr>"
    using one_approval_flow_at_a_time [of exampleExt _ _ _ ?w 1 1] w by blast
  have 3: "fst (onApproveOrReject exampleExt ?h exampleWorld) = ?h\<lparr>approvalFlowEnded := True\<rparr>"
    using one_approval_flow_at_a_time [of exampleExt _ _ ?h exampleWorld] h by blast
  from 2 have e2: "endExistingApprovalFlow exampleExt ''f'' ?w =
     \<lparr> sharedApprovalFlowId = [], env = 1,
       trace = [EndFlow ''f'' (Inr ()), AcceptRequest ''f'' (Inr ())] \<rparr>"
    by (simp add: exampleWorld_def)
  from no ob 1 w(1) e2 h 3 show ?thesis by (intro conjI)
qed


section \<open>Properties of the gas-fee-token modal\<close>

lemma NATIVE_TOKEN_ADDRESS_value:
  "NATIVE_TOKEN_ADDRESS = ''0x0000000000000000000000000000000000000000''"
  by (simp add: NATIVE_TOKEN_ADDRESS_def padEnd_def eval_nat_numeral)

text \<open>
  C10, as stated, ends with: when \<open>selectedGasFeeToken\<close> is absent exactly the
  first (native) item is selected. That fails when a token of \<open>gasFeeTokens\<close>
  carries the native token address itself: both items are then selected.
\<close>

theorem GasFeeTokenModal_two_items_selected:
  "selectedGasFeeToken
     \<lparr> gasFeeTokens = Some [exampleToken ''WETH'' NATIVE_TOKEN_ADDRESS],
       selectedGasFeeToken = None \<rparr> = None \<and>
   map isSelected
     (GasFeeTokenModal
        \<lparr> gasFeeTokens = Some [exampleToken ''WETH'' NATIVE_TOKEN_ADDRESS],
          selectedGasFeeToken = None \<rparr>) = [True, True]"
  by (simp add: GasFeeTokenModal_def gasFeeTokenAddresses_def exampleToken_def)

text \<open>
  C10, amended. The modal lists the native token address first, then the address of
  every token of \<open>gasFeeTokens\<close> in order. An item is marked selected if and only if
  its address equals \<open>selectedGasFeeToken\<close> up to letter case, or
  \<open>selectedGasFeeToken\<close> is absent (undefined or empty) and its address is the
  native token address. So when \<open>selectedGasFeeToken\<close> is undefined the first item
  is selected, and a later item is selected exactly when its token carries the native
  token address; when no token does, exactly the first item is selected.
\<close>

theorem GasFeeTokenModal_items:
  "map item_tokenAddress (GasFeeTokenModal c) =
     NATIVE_TOKEN_ADDRESS # (case gasFeeTokens c of None \<Rightarrow> [] | Some ts \<Rightarrow> map tokenAddress ts) \<and>
   (\<forall>it \<in> set (GasFeeTokenModal c).
      isSelected it \<longleftrightarrow>
        (\<exists>s. selectedGasFeeToken c = Some s \<and>
             toLowerCase s = toLowerCase (item_tokenAddress it)) \<or>
        (\<not> truthy (selectedGasFeeToken c) \<and> item_tokenAddress it = NATIVE_TOKEN_ADDRESS)) \<and>
   (selectedGasFeeToken c = None \<longrightarrow>
      map isSelected (GasFeeTokenModal c) =
        True # map (\<lambda>t. tokenAddress t = NATIVE_TOKEN_ADDRESS)
                 (case gasFeeTokens c of None \<Rightarrow> [] | Some ts \<Rightarrow> ts)) \<and>
   (selectedGasFeeToken c = None \<and>
    (\<forall>t \<in> set (case gasFeeTokens c of None \<Rightarrow> [] | Some ts \<Rightarrow> ts).
       tokenAddress t \<noteq> NATIVE_TOKEN_ADDRESS) \<longrightarrow>
      map isSelected (GasFeeTokenModal c) =
        True # replicate (length (case gasFeeTokens c of None \<Rightarrow> [] | Some ts \<Rightarrow> ts)) False)"
proof (intro conjI impI)
  show "map item_tokenAddress (GasFeeTokenModal c) =
     NATIVE_TOKEN_ADDRESS # (case gasFeeTokens c of None \<Rightarrow> [] | Some ts \<Rightarrow> map tokenAddress ts)"
    by (simp add: GasFeeTokenModal_def gasFeeTokenAddresses_def comp_def split: option.splits)
next
  show "\<forall>it \<in> set (GasFeeTokenModal c).
      isSelected it \<longleftrightarrow>
        (\<exists>s. selectedGasFeeToken c = Some s \<and>
             toLowerCase s = toLowerCase (item_tokenAddress it)) \<or>
        (\<not> truthy (selectedGasFeeToken c) \<and> item_tokenAddress it = NATIVE_TOKEN_ADDRESS)"
    by (cases "selectedGasFeeToken c") (auto simp: GasFeeTokenModal_def)
next
  assume "selectedGasFeeToken c = None"
  then show "map isSelected (GasFeeTokenModal c) =
        True # map (\<lambda>t. tokenAddress t = NATIVE_TOKEN_ADDRESS)
                 (case gasFeeTokens c of None \<Rightarrow> [] | Some ts \<Rightarrow> ts)"
    by (simp add: GasFeeTokenModal_def gasFeeTokenAddresses_def comp_def split: option.splits)
next
  assume a: "selectedGasFeeToken c = None \<and>
    (\<forall>t \<in> set (case gasFeeTokens c of None \<Rightarrow> [] | Some ts \<Rightarrow> ts).
       tokenAddress t \<noteq> NATIVE_TOKEN_ADDRESS)"
  then have "map (\<lambda>t. tokenAddress t = NATIVE_TOKEN_ADDRESS)
                 (case gasFeeTokens c of None \<Rightarrow> [] | Some ts \<Rightarrow> ts)
             = replicate (length (case gasFeeTokens c of None \<Rightarrow> [] | Some ts \<Rightarrow> ts)) False"
    by (simp add: map_replicate_const [symmetric])
  with a show "map isSelected (GasFeeTokenModal c) =
        True # replicate (length (case gasFeeTokens c of None \<Rightarrow> [] | Some ts \<Rightarrow> ts)) False"
    by (simp add: GasFeeTokenModal_def gasFeeTokenAddresses_def comp_def split: option.splits)
qed

theorem GasFeeTokenModal_items_witness:
  "map isSelected
     (GasFeeTokenModal
        \<lparr> gasFeeTokens = Some [exampleToken ''USDC'' ''0xabc'', exampleToken ''WETH'' ''0xdef''],
          selectedGasFeeToken = None \<rparr>) = [True, False, False] \<and>
   map item_tokenAddress
     (GasFeeTokenModal
        \<lparr> gasFeeTokens = Some [exampleToken ''USDC'' ''0xabc'', exampleToken ''WETH'' ''0xdef''],
          selectedGasFeeToken = None \<rparr>) = [NATIVE_TOKEN_ADDRESS, ''0xabc'', ''0xdef'']"
proof -
  let ?c = "\<lparr> gasFeeTokens = Some [exampleToken ''USDC'' ''0xabc'', exampleToken ''WETH'' ''0xdef''],
             selectedGasFeeToken = None \<rparr>"
  have a: "selectedGasFeeToken ?c = None" by simp
  have b: "\<forall>t \<in> set (case gasFeeTokens ?c of None \<Rightarrow> [] | Some ts \<Rightarrow> ts).
             tokenAddress t \<noteq> NATIVE_TOKEN_ADDRESS"
    by (simp add: exampleToken_def NATIVE_TOKEN_ADDRESS_value)
  show ?thesis
    using a b GasFeeTokenModal_items [of ?c]
    by (simp add: exampleToken_def)
qed


end
